theory Spec2Isabelle
  imports Main "HOL-Library.Word"
begin

unbundle bit_operations_syntax

section \<open>Python strings and bytes\<close>

text \<open>
  A Python \<open>str\<close> is a sequence of Unicode code points (0 .. 0x10FFFF, lone surrogates
  included); a \<open>bytes\<close> object is a sequence of octets. Literals of the source are
  written as HOL strings and turned into code points by \<open>lit\<close>, into octets by
  \<open>blit\<close>.
\<close>

type_synonym pystr = "nat list"
type_synonym byte = "8 word"
type_synonym bytes = "byte list"

definition lit :: "string \<Rightarrow> pystr" where
  "lit s = map of_char s"

definition blit :: "string \<Rightarrow> bytes" where
  "blit s = map of_char s"

text \<open>
  The exceptions the function can raise. \<open>json.dumps\<close> raises \<open>TypeError\<close> for a value or
  a dict key of a type it cannot serialise, \<open>ValueError\<close> for a circular reference and for
  an int with more digits than the interpreter converts to text, and \<open>RecursionError\<close> when
  the payload is nested deeper than the interpreter's recursion limit allows; these three
  are the serialisation errors. \<open>str.encode\<close> raises \<open>UnicodeEncodeError\<close>, \<open>bytes.decode\<close>
  raises \<open>UnicodeDecodeError\<close>.
\<close>

datatype error =
    TypeError
  | ValueError
  | RecursionError
  | UnicodeEncodeError
  | UnicodeDecodeError

definition serialization_error :: "error \<Rightarrow> bool" where
  "serialization_error e = (e = TypeError \<or> e = ValueError \<or> e = RecursionError)"

text \<open>
  The state of the interpreter that \<open>json.dumps\<close> reads. \<open>recursion_budget\<close> is the number
  of levels that the recursion limit leaves to the encoder below the outermost value
  (\<open>sys.getrecursionlimit()\<close> less the frames in use): the function is taken to be called
  with room for the calls it makes on an empty dict, where \<open>json.dumps\<close> enters the
  outermost value, and the calls of \<open>base64\<close> and \<open>hmac\<close> go no deeper than that call.
  \<open>int_max_str_digits\<close> is the longest int, in digits, that is converted to text
  (\<open>sys.get_int_max_str_digits()\<close>, 4300 unless set otherwise; 0 is no limit).
\<close>

record interp =
  recursion_budget :: nat
  int_max_str_digits :: nat

subsection \<open>\<open>str.encode()\<close>: strict UTF-8\<close>

fun utf8_char :: "nat \<Rightarrow> error + bytes" where
  "utf8_char c =
     (if c < 0x80 then Inr [of_nat c]
      else if c < 0x800 then
        Inr [of_nat (0xC0 + c div 64), of_nat (0x80 + c mod 64)]
      else if 0xD800 \<le> c \<and> c < 0xE000 then Inl UnicodeEncodeError
      else if c < 0x10000 then
        Inr [of_nat (0xE0 + c div 4096), of_nat (0x80 + c div 64 mod 64),
             of_nat (0x80 + c mod 64)]
      else if c < 0x110000 then
        Inr [of_nat (0xF0 + c div 262144), of_nat (0x80 + c div 4096 mod 64),
             of_nat (0x80 + c div 64 mod 64), of_nat (0x80 + c mod 64)]
      else Inl UnicodeEncodeError)"

fun str_encode :: "pystr \<Rightarrow> error + bytes" where
  "str_encode [] = Inr []"
| "str_encode (c # cs) =
     (case utf8_char c of
        Inl e \<Rightarrow> Inl e
      | Inr b \<Rightarrow> (case str_encode cs of Inl e \<Rightarrow> Inl e | Inr bs \<Rightarrow> Inr (b @ bs)))"

subsection \<open>\<open>bytes.decode()\<close>: strict UTF-8\<close>

definition cont :: "byte \<Rightarrow> bool" where
  "cont b = (0x80 \<le> unat b \<and> unat b < 0xC0)"

fun bytes_decode :: "bytes \<Rightarrow> error + pystr" where
  "bytes_decode [] = Inr []"
| "bytes_decode (b # bs) =
     (let x = unat b in
      if x < 0x80 then
        (case bytes_decode bs of Inl e \<Rightarrow> Inl e | Inr cs \<Rightarrow> Inr (x # cs))
      else if 0xC2 \<le> x \<and> x < 0xE0 then
        (case bs of
           b1 # r \<Rightarrow>
             if cont b1 then
               (case bytes_decode r of Inl e \<Rightarrow> Inl e
                | Inr cs \<Rightarrow> Inr (((x - 0xC0) * 64 + (unat b1 - 0x80)) # cs))
             else Inl UnicodeDecodeError
         | _ \<Rightarrow> Inl UnicodeDecodeError)
      else if 0xE0 \<le> x \<and> x < 0xF0 then
        (case bs of
           b1 # b2 # r \<Rightarrow>
             (let c = (x - 0xE0) * 4096 + (unat b1 - 0x80) * 64 + (unat b2 - 0x80) in
              if cont b1 \<and> cont b2 \<and> 0x800 \<le> c \<and> \<not> (0xD800 \<le> c \<and> c < 0xE000) then
                (case bytes_decode r of Inl e \<Rightarrow> Inl e | Inr cs \<Rightarrow> Inr (c # cs))
              else Inl UnicodeDecodeError)
         | _ \<Rightarrow> Inl UnicodeDecodeError)
      else if 0xF0 \<le> x \<and> x < 0xF5 then
        (case bs of
           b1 # b2 # b3 # r \<Rightarrow>
             (let c = (x - 0xF0) * 262144 + (unat b1 - 0x80) * 4096
                      + (unat b2 - 0x80) * 64 + (unat b3 - 0x80) in
              if cont b1 \<and> cont b2 \<and> cont b3 \<and> 0x10000 \<le> c \<and> c < 0x110000 then
                (case bytes_decode r of Inl e \<Rightarrow> Inl e | Inr cs \<Rightarrow> Inr (c # cs))
              else Inl UnicodeDecodeError)
         | _ \<Rightarrow> Inl UnicodeDecodeError)
      else Inl UnicodeDecodeError)"

subsection \<open>\<open>str.rstrip(chars)\<close>\<close>

definition rstrip :: "pystr \<Rightarrow> pystr \<Rightarrow> pystr" where
  "rstrip chars s = rev (dropWhile (\<lambda>c. c \<in> set chars) (rev s))"

section \<open>\<open>base64.urlsafe_b64encode\<close>\<close>

text \<open>
  \<open>base64.b64encode(s)\<close> is \<open>binascii.b2a_base64(s, newline=False)\<close>: each group of
  three octets gives four characters of the standard alphabet; a last group of one octet
  gives two characters and \<open>==\<close>, a last group of two octets three characters and \<open>=\<close>.
\<close>

definition table_b2a_base64 :: string where
  "table_b2a_base64 =
     ''ABCDEFGHIJKLMNOPQRSTUVWXYZabcdefghijklmnopqrstuvwxyz0123456789+/''"

definition b64chr :: "nat \<Rightarrow> byte" where
  "b64chr n = of_char (table_b2a_base64 ! (n mod 64))"

definition BASE64_PAD :: byte where
  "BASE64_PAD = of_char CHR ''=''"

fun b64encode :: "bytes \<Rightarrow> bytes" where
  "b64encode [] = []"
| "b64encode [a] =
     [b64chr (unat a div 4), b64chr (unat a mod 4 * 16), BASE64_PAD, BASE64_PAD]"
| "b64encode [a, b] =
     [b64chr (unat a div 4), b64chr (unat a mod 4 * 16 + unat b div 16),
      b64chr (unat b mod 16 * 4), BASE64_PAD]"
| "b64encode (a # b # c # rest) =
     [b64chr (unat a div 4), b64chr (unat a mod 4 * 16 + unat b div 16),
      b64chr (unat b mod 16 * 4 + unat c div 64), b64chr (unat c mod 64)]
     @ b64encode rest"

text \<open>\<open>_urlsafe_encode_translation = bytes.maketrans(b'+/', b'-_')\<close>\<close>

definition urlsafe_encode_translation :: "byte \<Rightarrow> byte" where
  "urlsafe_encode_translation b =
     (if b = of_char CHR ''+'' then of_char CHR ''-''
      else if b = of_char CHR ''/'' then of_char CHR ''_''
      else b)"

definition urlsafe_b64encode :: "bytes \<Rightarrow> bytes" where
  "urlsafe_b64encode s = map urlsafe_encode_translation (b64encode s)"

section \<open>\<open>hashlib.sha256\<close>: SHA-256 (FIPS 180-4)\<close>

type_synonym u32 = "32 word"

definition Ch :: "u32 \<Rightarrow> u32 \<Rightarrow> u32 \<Rightarrow> u32" where
  "Ch x y z = (x AND y) XOR (NOT x AND z)"

definition Maj :: "u32 \<Rightarrow> u32 \<Rightarrow> u32 \<Rightarrow> u32" where
  "Maj x y z = (x AND y) XOR (x AND z) XOR (y AND z)"

definition Sigma0 :: "u32 \<Rightarrow> u32" where
  "Sigma0 x = word_rotr 2 x XOR word_rotr 13 x XOR word_rotr 22 x"

definition Sigma1 :: "u32 \<Rightarrow> u32" where
  "Sigma1 x = word_rotr 6 x XOR word_rotr 11 x XOR word_rotr 25 x"

definition sigma0 :: "u32 \<Rightarrow> u32" where
  "sigma0 x = word_rotr 7 x XOR word_rotr 18 x XOR drop_bit 3 x"

definition sigma1 :: "u32 \<Rightarrow> u32" where
  "sigma1 x = word_rotr 17 x XOR word_rotr 19 x XOR drop_bit 10 x"

definition K256 :: "u32 list" where
  "K256 =
    [0x428A2F98, 0x71374491, 0xB5C0FBCF, 0xE9B5DBA5, 0x3956C25B, 0x59F111F1, 0x923F82A4, 0xAB1C5ED5,
     0xD807AA98, 0x12835B01, 0x243185BE, 0x550C7DC3, 0x72BE5D74, 0x80DEB1FE, 0x9BDC06A7, 0xC19BF174,
     0xE49B69C1, 0xEFBE4786, 0x0FC19DC6, 0x240CA1CC, 0x2DE92C6F, 0x4A7484AA, 0x5CB0A9DC, 0x76F988DA,
     0x983E5152, 0xA831C66D, 0xB00327C8, 0xBF597FC7, 0xC6E00BF3, 0xD5A79147, 0x06CA6351, 0x14292967,
     0x27B70A85, 0x2E1B2138, 0x4D2C6DFC, 0x53380D13, 0x650A7354, 0x766A0ABB, 0x81C2C92E, 0x92722C85,
     0xA2BFE8A1, 0xA81A664B, 0xC24B8B70, 0xC76C51A3, 0xD192E819, 0xD6990624, 0xF40E3585, 0x106AA070,
     0x19A4C116, 0x1E376C08, 0x2748774C, 0x34B0BCB5, 0x391C0CB3, 0x4ED8AA4A, 0x5B9CCA4F, 0x682E6FF3,
     0x748F82EE, 0x78A5636F, 0x84C87814, 0x8CC70208, 0x90BEFFFA, 0xA4506CEB, 0xBEF9A3F7, 0xC67178F2]"

definition H256 :: "u32 list" where
  "H256 =
    [0x6A09E667, 0xBB67AE85, 0x3C6EF372, 0xA54FF53A, 0x510E527F, 0x9B05688C, 0x1F83D9AB, 0x5BE0CD19]"

text \<open>
  Padding: the octet \<open>0x80\<close>, then the least number of zero octets that brings the
  length to 56 modulo 64, then the message length in bits as a 64-bit big-endian number.
\<close>

definition be_bytes :: "nat \<Rightarrow> nat \<Rightarrow> bytes" where
  "be_bytes n x = map (\<lambda>i. of_nat (x div 256 ^ (n - 1 - i))) [0..<n]"

definition sha_pad :: "bytes \<Rightarrow> bytes" where
  "sha_pad m =
     m @ [0x80] @ replicate ((119 - length m mod 64) mod 64) 0
       @ be_bytes 8 (8 * length m mod 2 ^ 64)"

definition be_word :: "byte \<Rightarrow> byte \<Rightarrow> byte \<Rightarrow> byte \<Rightarrow> u32" where
  "be_word a b c d =
     push_bit 24 (ucast a) OR push_bit 16 (ucast b) OR push_bit 8 (ucast c) OR ucast d"

fun be_words :: "bytes \<Rightarrow> u32 list" where
  "be_words (a # b # c # d # r) = be_word a b c d # be_words r"
| "be_words _ = []"

definition word_bytes :: "u32 \<Rightarrow> bytes" where
  "word_bytes w = [ucast (drop_bit 24 w), ucast (drop_bit 16 w), ucast (drop_bit 8 w), ucast w]"

text \<open>The message schedule: sixteen words of the block, extended to sixty-four.\<close>

fun schedule :: "nat \<Rightarrow> u32 list \<Rightarrow> u32 list" where
  "schedule 0 w = w"
| "schedule (Suc n) w =
     (let t = length w in
      schedule n (w @ [sigma1 (w ! (t - 2)) + w ! (t - 7) + sigma0 (w ! (t - 15)) + w ! (t - 16)]))"

fun sha_round :: "u32 list \<Rightarrow> u32 \<times> u32 \<Rightarrow> u32 list" where
  "sha_round [a, b, c, d, e, f, g, h] (k, w) =
     (let t1 = h + Sigma1 e + Ch e f g + k + w;
          t2 = Sigma0 a + Maj a b c
      in [t1 + t2, a, b, c, d + t1, e, f, g])"
| "sha_round s _ = s"

definition sha_compress :: "u32 list \<Rightarrow> bytes \<Rightarrow> u32 list" where
  "sha_compress hs block =
     map2 (+) hs (foldl sha_round hs (zip K256 (schedule 48 (be_words block))))"

function sha_blocks :: "u32 list \<Rightarrow> bytes \<Rightarrow> u32 list" where
  "sha_blocks hs m =
     (if length m < 64 then hs
      else sha_blocks (sha_compress hs (take 64 m)) (drop 64 m))"
  by pat_completeness auto
termination
  by (relation "measure (\<lambda>(hs, m). length m)") auto

declare sha_blocks.simps [simp del]

definition sha256 :: "bytes \<Rightarrow> bytes" where
  "sha256 m = concat (map word_bytes (sha_blocks H256 (sha_pad m)))"

section \<open>\<open>hmac.new(key, msg, hashlib.sha256).digest()\<close>\<close>

text \<open>
  As \<open>hmac.py\<close> does it: a key longer than the block size (64) is replaced by its
  digest; the key is then padded on the right with zero octets to the block size
  (\<open>key.ljust(blocksize, b'\0')\<close>); the inner hash is fed the key translated by
  \<open>trans_36\<close> (each octet XOR 0x36) and the message, the outer hash the key translated
  by \<open>trans_5C\<close> and the inner digest.
\<close>

definition blocksize :: nat where
  "blocksize = 64"

definition ljust :: "nat \<Rightarrow> byte \<Rightarrow> bytes \<Rightarrow> bytes" where
  "ljust n fill s = s @ replicate (n - length s) fill"

definition hmac_key :: "bytes \<Rightarrow> bytes" where
  "hmac_key key =
     ljust blocksize 0 (if length key > blocksize then sha256 key else key)"

definition hmac_sha256 :: "bytes \<Rightarrow> bytes \<Rightarrow> bytes" where
  "hmac_sha256 key msg =
     (let k = hmac_key key;
          inner = sha256 (map (\<lambda>x. x XOR 0x36) k @ msg)
      in sha256 (map (\<lambda>x. x XOR 0x5C) k @ inner))"

text \<open>
  What the outer hash is fed: the translated key block and the inner digest. The digest
  that \<open>hmac.new(key, msg, hashlib.sha256).digest()\<close> returns is the SHA-256 digest of
  these 96 octets.
\<close>

definition hmac_outer_input :: "bytes \<Rightarrow> bytes \<Rightarrow> bytes" where
  "hmac_outer_input key msg =
     map (\<lambda>x. x XOR 0x5C) (hmac_key key) @ sha256 (map (\<lambda>x. x XOR 0x36) (hmac_key key) @ msg)"

section \<open>Payload values\<close>

text \<open>
  The payload is typed \<open>Dict[str, Any]\<close>: Python does not check the annotation, so a
  payload is any value, and the values inside it are of any type. A \<open>dict\<close> keeps its
  items in insertion order: it is a list of key-value pairs. \<open>PObject\<close> stands for a
  value of any other type (a set, a bytes object, an instance of a class); it carries
  the name of its class. An object graph with a cycle is a tree with \<open>PCircular\<close> at the
  places where a container holds a reference to a container that encloses it (the
  encoder goes no further there).

  A finite \<open>float\<close> is carried as the decimal numeral that \<open>float.__repr__\<close> prints for
  it (the shortest numeral that reads back as the same double): the sign, the integer
  part, the digits after the point (none when there is no point) and the exponent
  (\<open>None\<close> when there is none).
\<close>

datatype pyfloat =
    Finite (neg: bool) (ipart: nat) (frac: "nat list") (expo: "int option")
  | NaN
  | PosInf
  | NegInf

datatype pyval =
    PNone
  | PBool bool
  | PInt int
  | PFloat pyfloat
  | PStr pystr
  | PList "pyval list"
  | PTuple "pyval list"
  | PDict "(pyval \<times> pyval) list"
  | PObject string
  | PCircular

section \<open>\<open>json.dumps\<close>\<close>

subsection \<open>Numbers\<close>

function nat_repr :: "nat \<Rightarrow> pystr" where
  "nat_repr n = (if n < 10 then [48 + n] else nat_repr (n div 10) @ [48 + n mod 10])"
  by pat_completeness auto
termination
  by (relation "measure id") auto

declare nat_repr.simps [simp del]

definition int_repr :: "int \<Rightarrow> pystr" where
  "int_repr i = (if i < 0 then lit ''-'' @ nat_repr (nat (- i)) else nat_repr (nat i))"

text \<open>
  \<open>int.__repr__\<close>: the interpreter's limit is looked at for a text of more than
  \<open>_PY_LONG_MAX_STR_DIGITS_THRESHOLD\<close> characters (sign included); when the limit is set
  and the int has more digits than the limit, the conversion raises \<open>ValueError\<close>.
\<close>

definition MAX_STR_DIGITS_THRESHOLD :: nat where
  "MAX_STR_DIGITS_THRESHOLD = 640"

definition int_str :: "interp \<Rightarrow> int \<Rightarrow> error + pystr" where
  "int_str env i =
     (if MAX_STR_DIGITS_THRESHOLD < length (int_repr i)
         \<and> 0 < int_max_str_digits env
         \<and> int_max_str_digits env < length (nat_repr (nat \<bar>i\<bar>))
      then Inl ValueError
      else Inr (int_repr i))"

text \<open>The exponent of a float is printed with its sign and at least two digits.\<close>

definition exp_repr :: "int \<Rightarrow> pystr" where
  "exp_repr e =
     lit ''e'' @ (if e < 0 then lit ''-'' else lit ''+'')
       @ (if \<bar>e\<bar> < 10 then lit ''0'' else []) @ nat_repr (nat \<bar>e\<bar>)"

definition float_repr :: "bool \<Rightarrow> nat \<Rightarrow> nat list \<Rightarrow> int option \<Rightarrow> pystr" where
  "float_repr sg ip fr ex =
     (if sg then lit ''-'' else []) @ nat_repr ip
       @ (if fr = [] then [] else lit ''.'' @ map (\<lambda>d. 48 + d mod 10) fr)
       @ (case ex of None \<Rightarrow> [] | Some e \<Rightarrow> exp_repr e)"

text \<open>
  \<open>floatstr\<close> of \<open>json.encoder\<close>, with \<open>allow_nan=True\<close> (the default, which the source
  keeps): the three non-finite values have a text of their own and raise nothing.
\<close>

fun floatstr :: "pyfloat \<Rightarrow> pystr" where
  "floatstr NaN = lit ''NaN''"
| "floatstr PosInf = lit ''Infinity''"
| "floatstr NegInf = lit ''-Infinity''"
| "floatstr (Finite sg ip fr ex) = float_repr sg ip fr ex"

subsection \<open>Strings: \<open>encode_basestring_ascii\<close> (\<open>ensure_ascii=True\<close>, the default)\<close>

definition hexdigit :: "nat \<Rightarrow> nat" where
  "hexdigit d = of_char (''0123456789abcdef'' ! (d mod 16))"

definition hex4 :: "nat \<Rightarrow> pystr" where
  "hex4 n = [hexdigit (n div 4096), hexdigit (n div 256), hexdigit (n div 16), hexdigit n]"

text \<open>
  \<open>ESCAPE_ASCII\<close> matches a backslash, a double quote and every character outside
  \<open>' '\<close> .. \<open>'~'\<close>; \<open>ESCAPE_DCT\<close> has the short escapes; a character from
  \<open>0x10000\<close> on is written as a surrogate pair.
\<close>

definition escape_ascii :: "nat \<Rightarrow> pystr" where
  "escape_ascii c =
     (if c = 0x5C then lit [CHR 0x5C, CHR 0x5C]
      else if c = 0x22 then lit [CHR 0x5C, CHR 0x22]
      else if c = 0x08 then lit [CHR 0x5C, CHR ''b'']
      else if c = 0x0C then lit [CHR 0x5C, CHR ''f'']
      else if c = 0x0A then lit [CHR 0x5C, CHR ''n'']
      else if c = 0x0D then lit [CHR 0x5C, CHR ''r'']
      else if c = 0x09 then lit [CHR 0x5C, CHR ''t'']
      else if 0x20 \<le> c \<and> c \<le> 0x7E then [c]
      else if c < 0x10000 then lit [CHR 0x5C, CHR ''u''] @ hex4 c
      else
        (let n = c - 0x10000;
             s1 = 0xD800 + (n div 1024) mod 1024;
             s2 = 0xDC00 + n mod 1024
         in lit [CHR 0x5C, CHR ''u''] @ hex4 s1 @ lit [CHR 0x5C, CHR ''u''] @ hex4 s2))"

definition encode_basestring_ascii :: "pystr \<Rightarrow> pystr" where
  "encode_basestring_ascii s = lit [CHR 0x22] @ concat (map escape_ascii s) @ lit [CHR 0x22]"

subsection \<open>The encoder\<close>

text \<open>
  A dict key that is a \<open>str\<close> is kept; a \<open>float\<close>, \<open>bool\<close>, \<open>None\<close> or \<open>int\<close> key is turned
  into its text; any other key raises \<open>TypeError\<close> (\<open>skipkeys=False\<close>).
\<close>

fun key_str :: "interp \<Rightarrow> pyval \<Rightarrow> error + pystr" where
  "key_str env (PStr s) = Inr s"
| "key_str env (PFloat x) = Inr (floatstr x)"
| "key_str env (PBool True) = Inr (lit ''true'')"
| "key_str env (PBool False) = Inr (lit ''false'')"
| "key_str env PNone = Inr (lit ''null'')"
| "key_str env (PInt i) = int_str env i"
| "key_str env _ = Inl TypeError"

text \<open>
  \<open>_iterencode\<close>, \<open>_iterencode_list\<close> and \<open>_iterencode_dict\<close>, with the chunks joined.
  The loops over the elements carry the flag \<open>first\<close>: every element but the first
  is preceded by the item separator. An empty list or tuple is \<open>[]\<close>, an empty dict
  \<open>{}\<close>. A value of another type goes to \<open>default\<close>, which raises \<open>TypeError\<close>.

  The argument \<open>d\<close> is the number of levels that can still be entered: entering a list, a
  tuple or a dict with none left raises \<open>RecursionError\<close>. A container that is already
  being serialised is entered and then found among the \<open>markers\<close>, which raises
  \<open>ValueError\<close>: that takes the level of the container and one more for the comparison
  of the identities. The call of \<open>default\<close> takes two levels as well, one for the method
  and one for the call in it that makes the \<open>TypeError\<close>. With fewer levels left, both
  raise \<open>RecursionError\<close>.
\<close>

fun iterencode :: "pystr \<Rightarrow> pystr \<Rightarrow> interp \<Rightarrow> nat \<Rightarrow> pyval \<Rightarrow> error + pystr"
  and iterencode_list ::
    "pystr \<Rightarrow> pystr \<Rightarrow> interp \<Rightarrow> nat \<Rightarrow> bool \<Rightarrow> pyval list \<Rightarrow> error + pystr"
  and iterencode_dict ::
    "pystr \<Rightarrow> pystr \<Rightarrow> interp \<Rightarrow> nat \<Rightarrow> bool \<Rightarrow> (pyval \<times> pyval) list \<Rightarrow> error + pystr"
where
  "iterencode isep ksep env d (PStr s) = Inr (encode_basestring_ascii s)"
| "iterencode isep ksep env d PNone = Inr (lit ''null'')"
| "iterencode isep ksep env d (PBool b) = Inr (if b then lit ''true'' else lit ''false'')"
| "iterencode isep ksep env d (PInt i) = int_str env i"
| "iterencode isep ksep env d (PFloat x) = Inr (floatstr x)"
| "iterencode isep ksep env d (PList xs) =
     (if d = 0 then Inl RecursionError
      else if xs = [] then Inr (lit ''[]'')
      else case iterencode_list isep ksep env (d - 1) True xs of
             Inl e \<Rightarrow> Inl e
           | Inr s \<Rightarrow> Inr (lit ''['' @ s @ lit '']''))"
| "iterencode isep ksep env d (PTuple xs) =
     (if d = 0 then Inl RecursionError
      else if xs = [] then Inr (lit ''[]'')
      else case iterencode_list isep ksep env (d - 1) True xs of
             Inl e \<Rightarrow> Inl e
           | Inr s \<Rightarrow> Inr (lit ''['' @ s @ lit '']''))"
| "iterencode isep ksep env d (PDict kvs) =
     (if d = 0 then Inl RecursionError
      else if kvs = [] then Inr (lit ''{}'')
      else case iterencode_dict isep ksep env (d - 1) True kvs of
             Inl e \<Rightarrow> Inl e
           | Inr s \<Rightarrow> Inr (lit ''{'' @ s @ lit ''}''))"
| "iterencode isep ksep env d PCircular =
     (if d < 2 then Inl RecursionError else Inl ValueError)"
| "iterencode isep ksep env d (PObject cls) =
     (if d < 2 then Inl RecursionError else Inl TypeError)"
| "iterencode_list isep ksep env d first [] = Inr []"
| "iterencode_list isep ksep env d first (v # vs) =
     (case iterencode isep ksep env d v of
        Inl e \<Rightarrow> Inl e
      | Inr s \<Rightarrow>
          (case iterencode_list isep ksep env d False vs of
             Inl e \<Rightarrow> Inl e
           | Inr r \<Rightarrow> Inr ((if first then [] else isep) @ s @ r)))"
| "iterencode_dict isep ksep env d first [] = Inr []"
| "iterencode_dict isep ksep env d first ((k, v) # kvs) =
     (case key_str env k of
        Inl e \<Rightarrow> Inl e
      | Inr key \<Rightarrow>
          (case iterencode isep ksep env d v of
             Inl e \<Rightarrow> Inl e
           | Inr s \<Rightarrow>
               (case iterencode_dict isep ksep env d False kvs of
                  Inl e \<Rightarrow> Inl e
                | Inr r \<Rightarrow>
                    Inr ((if first then [] else isep) @ encode_basestring_ascii key
                         @ ksep @ s @ r))))"

text \<open>
  \<open>json.dumps(obj, separators=(item_separator, key_separator))\<close>. The outermost value can
  always be entered; the recursion budget counts the levels below it.
\<close>

definition dumps :: "interp \<Rightarrow> pyval \<Rightarrow> pystr \<times> pystr \<Rightarrow> error + pystr" where
  "dumps env obj separators =
     iterencode (fst separators) (snd separators) env (Suc (recursion_budget env)) obj"

section \<open>The token signer\<close>

text \<open>
  \<open>generate_upload_signature(payload, secret_key)\<close>, statement by statement, in an
  interpreter in the state \<open>env\<close>. An exception
  raised by a call ends the function: the result is \<open>Inl\<close> of the error and no token.
  The arguments of \<open>hmac.new\<close> are evaluated from left to right.
\<close>

definition generate_upload_signature :: "interp \<Rightarrow> pyval \<Rightarrow> pystr \<Rightarrow> error + pystr" where
  "generate_upload_signature env payload secret_key =
     (case dumps env payload (lit '','', lit '':'') of
        Inl e \<Rightarrow> Inl e
      | Inr payload_json \<Rightarrow>
     (case str_encode payload_json of
        Inl e \<Rightarrow> Inl e
      | Inr payload_bytes \<Rightarrow>
     (case bytes_decode (urlsafe_b64encode payload_bytes) of
        Inl e \<Rightarrow> Inl e
      | Inr payload_b64_padded \<Rightarrow>
     (let payload_base64 = rstrip (lit ''='') payload_b64_padded in
      case str_encode secret_key of
        Inl e \<Rightarrow> Inl e
      | Inr key \<Rightarrow>
     (case str_encode payload_base64 of
        Inl e \<Rightarrow> Inl e
      | Inr msg \<Rightarrow>
     (let signature = hmac_sha256 key msg in
      case bytes_decode (urlsafe_b64encode signature) of
        Inl e \<Rightarrow> Inl e
      | Inr signature_b64_padded \<Rightarrow>
     (let signature_base64 = rstrip (lit ''='') signature_b64_padded in
      Inr (payload_base64 @ lit ''.'' @ signature_base64))))))))"

section \<open>The token format of the specification\<close>

text \<open>
  \<open>BASE64URL_NOPAD\<close>: base64 with the URL-safe alphabet and no padding, written
  directly: three octets give four characters, a last single octet two, a last pair
  of octets three.
\<close>

definition URLSAFE_ALPHABET :: string where
  "URLSAFE_ALPHABET =
     ''ABCDEFGHIJKLMNOPQRSTUVWXYZabcdefghijklmnopqrstuvwxyz0123456789-_''"

definition urlchr :: "nat \<Rightarrow> nat" where
  "urlchr n = of_char (URLSAFE_ALPHABET ! (n mod 64))"

fun BASE64URL_NOPAD :: "bytes \<Rightarrow> pystr" where
  "BASE64URL_NOPAD [] = []"
| "BASE64URL_NOPAD [a] = [urlchr (unat a div 4), urlchr (unat a mod 4 * 16)]"
| "BASE64URL_NOPAD [a, b] =
     [urlchr (unat a div 4), urlchr (unat a mod 4 * 16 + unat b div 16),
      urlchr (unat b mod 16 * 4)]"
| "BASE64URL_NOPAD (a # b # c # rest) =
     [urlchr (unat a div 4), urlchr (unat a mod 4 * 16 + unat b div 16),
      urlchr (unat b mod 16 * 4 + unat c div 64), urlchr (unat c mod 64)]
     @ BASE64URL_NOPAD rest"

definition token_chars :: "nat set" where
  "token_chars = set (lit ''ABCDEFGHIJKLMNOPQRSTUVWXYZabcdefghijklmnopqrstuvwxyz0123456789_.-'')"

text \<open>The ASCII bytes of a string of ASCII characters.\<close>

definition ascii_bytes :: "pystr \<Rightarrow> bytes" where
  "ascii_bytes s = map of_nat s"

section \<open>The verifier's side: reading a token back\<close>

text \<open>
  Modelled from the spec: the verifier is not part of the repository. It splits the
  token on the separator, restores the padding of the first part, decodes it as URL-safe
  base64 and parses the result as JSON. The decoder below reads padded base64 text in
  groups of four characters of the URL-safe alphabet; the last group may end in one or
  two padding characters; any other text is refused (\<open>None\<close>).
\<close>

definition b64val :: "nat \<Rightarrow> nat option" where
  "b64val c =
     (if 0x41 \<le> c \<and> c \<le> 0x5A then Some (c - 0x41)
      else if 0x61 \<le> c \<and> c \<le> 0x7A then Some (c - 0x61 + 26)
      else if 0x30 \<le> c \<and> c \<le> 0x39 then Some (c - 0x30 + 52)
      else if c = 0x2D then Some 62
      else if c = 0x5F then Some 63
      else None)"

definition restore_padding :: "pystr \<Rightarrow> pystr" where
  "restore_padding s = s @ replicate ((4 - length s mod 4) mod 4) 0x3D"

fun urlsafe_b64decode :: "pystr \<Rightarrow> bytes option" where
  "urlsafe_b64decode [] = Some []"
| "urlsafe_b64decode (c1 # c2 # c3 # c4 # rest) =
     (if rest = [] \<and> c3 = 0x3D \<and> c4 = 0x3D then
        (case (b64val c1, b64val c2) of
           (Some v1, Some v2) \<Rightarrow> Some [of_nat (v1 * 4 + v2 div 16)]
         | _ \<Rightarrow> None)
      else if rest = [] \<and> c4 = 0x3D then
        (case (b64val c1, b64val c2, b64val c3) of
           (Some v1, Some v2, Some v3) \<Rightarrow>
             Some [of_nat (v1 * 4 + v2 div 16), of_nat (v2 mod 16 * 16 + v3 div 4)]
         | _ \<Rightarrow> None)
      else
        (case (b64val c1, b64val c2, b64val c3, b64val c4) of
           (Some v1, Some v2, Some v3, Some v4) \<Rightarrow>
             (case urlsafe_b64decode rest of
                None \<Rightarrow> None
              | Some bs \<Rightarrow>
                  Some (of_nat (v1 * 4 + v2 div 16) # of_nat (v2 mod 16 * 16 + v3 div 4)
                        # of_nat (v3 mod 4 * 64 + v4) # bs))
         | _ \<Rightarrow> None))"
| "urlsafe_b64decode _ = None"

text \<open>
  The two segments of a token: what stands before its first separator and what stands
  after its last one.
\<close>

definition before_first :: "nat \<Rightarrow> pystr \<Rightarrow> pystr" where
  "before_first d s = takeWhile (\<lambda>c. c \<noteq> d) s"

definition after_last :: "nat \<Rightarrow> pystr \<Rightarrow> pystr" where
  "after_last d s = rev (takeWhile (\<lambda>c. c \<noteq> d) (rev s))"

definition DOT :: nat where
  "DOT = of_char CHR ''.''"

text \<open>The concrete scenario of the specification.\<close>

text \<open>
  The interpreter as it is when the function is called from the top level of a script, as
  the example of the source does, with the recursion limit of 1000 and the digit limit
  of 4300 that CPython 3.11 starts with: a payload of 994 containers, one inside the
  other, is serialised, one of 995 is not.
\<close>

definition default_interp :: interp where
  "default_interp = \<lparr>recursion_budget = 993, int_max_str_digits = 4300\<rparr>"

definition example_payload :: pyval where
  "example_payload =
     PDict [(PStr (lit ''user_id''), PInt 42), (PStr (lit ''action''), PStr (lit ''upload''))]"

definition example_key :: pystr where
  "example_key = lit ''test-secret''"

definition example_json :: pystr where
  \<open>example_json = lit ''{"user_id":42,"action":"upload"}''\<close>

text \<open>
  Character classes used below: a \<open>plain\<close> character is a printable ASCII character that
  is neither a space, a double quote nor a backslash; a \<open>printable\<close> string has only
  characters from \<open>' '\<close> to \<open>'~'\<close>.
\<close>

definition plain :: "nat \<Rightarrow> bool" where
  "plain c = (0x21 \<le> c \<and> c \<le> 0x7E \<and> c \<noteq> 0x22 \<and> c \<noteq> 0x5C)"

definition printable :: "pystr \<Rightarrow> bool" where
  "printable s = list_all (\<lambda>c. 0x20 \<le> c \<and> c \<le> 0x7E) s"

definition encodable :: "pystr \<Rightarrow> bool" where
  "encodable s = list_all (\<lambda>c. c < 0x110000 \<and> \<not> (0xD800 \<le> c \<and> c < 0xE000)) s"

fun key_ok :: "pyval \<Rightarrow> bool" where
  "key_ok (PStr s) = True"
| "key_ok (PFloat x) = True"
| "key_ok (PBool b) = True"
| "key_ok PNone = True"
| "key_ok (PInt i) = True"
| "key_ok _ = False"

text \<open>
  What can be serialised, in the words of the specification: a payload that holds no
  value of an unsupported type, no dict key that is not a \<open>str\<close>, \<open>int\<close>, \<open>float\<close>, \<open>bool\<close> or
  \<open>None\<close>, no circular reference and no int longer than the interpreter converts, and
  that is not nested deeper than the interpreter can go.
\<close>

definition digits_ok :: "interp \<Rightarrow> int \<Rightarrow> bool" where
  "digits_ok env i =
     (int_max_str_digits env = 0 \<or> length (int_repr i) \<le> MAX_STR_DIGITS_THRESHOLD
      \<or> length (nat_repr (nat \<bar>i\<bar>)) \<le> int_max_str_digits env)"

fun key_representable :: "interp \<Rightarrow> pyval \<Rightarrow> bool" where
  "key_representable env (PStr s) = True"
| "key_representable env (PFloat x) = True"
| "key_representable env (PBool b) = True"
| "key_representable env PNone = True"
| "key_representable env (PInt i) = digits_ok env i"
| "key_representable env _ = False"

fun values_ok :: "interp \<Rightarrow> pyval \<Rightarrow> bool"
  and values_ok_list :: "interp \<Rightarrow> pyval list \<Rightarrow> bool"
  and values_ok_items :: "interp \<Rightarrow> (pyval \<times> pyval) list \<Rightarrow> bool"
where
  "values_ok env (PObject cls) = False"
| "values_ok env PCircular = False"
| "values_ok env (PList xs) = values_ok_list env xs"
| "values_ok env (PTuple xs) = values_ok_list env xs"
| "values_ok env (PDict kvs) = values_ok_items env kvs"
| "values_ok env PNone = True"
| "values_ok env (PBool b) = True"
| "values_ok env (PInt i) = digits_ok env i"
| "values_ok env (PFloat x) = True"
| "values_ok env (PStr s) = True"
| "values_ok_list env [] = True"
| "values_ok_list env (v # vs) = (values_ok env v \<and> values_ok_list env vs)"
| "values_ok_items env [] = True"
| "values_ok_items env ((k, v) # kvs) =
     (key_representable env k \<and> values_ok env v \<and> values_ok_items env kvs)"

text \<open>The number of containers, one inside the other, on the deepest path of a value.\<close>

fun nesting :: "pyval \<Rightarrow> nat"
  and nesting_list :: "pyval list \<Rightarrow> nat"
  and nesting_items :: "(pyval \<times> pyval) list \<Rightarrow> nat"
where
  "nesting (PList xs) = Suc (nesting_list xs)"
| "nesting (PTuple xs) = Suc (nesting_list xs)"
| "nesting (PDict kvs) = Suc (nesting_items kvs)"
| "nesting PCircular = Suc 0"
| "nesting (PObject cls) = 0"
| "nesting PNone = 0"
| "nesting (PBool b) = 0"
| "nesting (PInt i) = 0"
| "nesting (PFloat x) = 0"
| "nesting (PStr s) = 0"
| "nesting_list [] = 0"
| "nesting_list (v # vs) = max (nesting v) (nesting_list vs)"
| "nesting_items [] = 0"
| "nesting_items ((k, v) # kvs) = max (nesting v) (nesting_items kvs)"

definition representable :: "interp \<Rightarrow> pyval \<Rightarrow> bool" where
  "representable env payload =
     (values_ok env payload \<and> nesting payload \<le> Suc (recursion_budget env))"

definition unserializable_payload :: pyval where
  "unserializable_payload = PDict [(PStr (lit ''tags''), PObject ''set'')]"

definition circular_payload :: pyval where
  "circular_payload = PDict [(PStr (lit ''self''), PCircular)]"

definition nan_payload :: pyval where
  "nan_payload = PDict [(PStr (lit ''x''), PFloat NaN)]"

text \<open>
  A collision of SHA-256: two different octet strings with the same digest. The keys of
  64 ASCII characters are their own key blocks.
\<close>

definition sha256_collision :: "bytes \<Rightarrow> bytes \<Rightarrow> bool" where
  "sha256_collision x y = (x \<noteq> y \<and> sha256 x = sha256 y)"

definition ascii_keys :: "pystr set" where
  "ascii_keys = {s. set s \<subseteq> {..<128} \<and> length s = 64}"

text \<open>\<open>sep.join(parts)\<close>\<close>

fun join :: "pystr \<Rightarrow> pystr list \<Rightarrow> pystr" where
  "join sep [] = []"
| "join sep [x] = x"
| "join sep (x # y # ys) = x @ sep @ join sep (y # ys)"

fun key_text :: "pyval \<Rightarrow> pystr" where
  "key_text (PStr s) = s"
| "key_text (PFloat x) = floatstr x"
| "key_text (PBool b) = (if b then lit ''true'' else lit ''false'')"
| "key_text PNone = lit ''null''"
| "key_text (PInt i) = int_repr i"
| "key_text _ = []"

fun canonicalJSON :: "pyval \<Rightarrow> pystr" where
  "canonicalJSON (PDict kvs) =
     lit ''{''
     @ join (lit '','')
         (map (\<lambda>kv. encode_basestring_ascii (key_text (fst kv)) @ lit '':''
                     @ canonicalJSON (snd kv)) kvs)
     @ lit ''}''"
| "canonicalJSON (PList xs) = lit ''['' @ join (lit '','') (map canonicalJSON xs) @ lit '']''"
| "canonicalJSON (PTuple xs) = lit ''['' @ join (lit '','') (map canonicalJSON xs) @ lit '']''"
| "canonicalJSON (PStr s) = encode_basestring_ascii s"
| "canonicalJSON PNone = lit ''null''"
| "canonicalJSON (PBool b) = (if b then lit ''true'' else lit ''false'')"
| "canonicalJSON (PInt i) = int_repr i"
| "canonicalJSON (PFloat x) = floatstr x"
| "canonicalJSON (PObject cls) = []"
| "canonicalJSON PCircular = []"

datatype mode = Outside | InString | Escaped

definition is_ws :: "nat \<Rightarrow> bool" where
  "is_ws c = (c = 0x20 \<or> c = 0x09 \<or> c = 0x0A \<or> c = 0x0D)"

fun scan :: "mode \<Rightarrow> pystr \<Rightarrow> mode option" where
  "scan m [] = Some m"
| "scan Outside (c # cs) =
     (if is_ws c then None else if c = 0x22 then scan InString cs else scan Outside cs)"
| "scan InString (c # cs) =
     (if c = 0x5C then scan Escaped cs else if c = 0x22 then scan Outside cs
      else scan InString cs)"
| "scan Escaped (c # cs) = scan InString cs"

definition clean :: "pystr \<Rightarrow> bool" where
  "clean s = (scan Outside s = Some Outside)"

section \<open>Properties of the library functions\<close>

subsection \<open>Base64\<close>

lemma alphabet_translated:
  "list_all2 (\<lambda>c d. unat (urlsafe_encode_translation (of_char c)) = (of_char d :: nat))
     table_b2a_base64 URLSAFE_ALPHABET"
  by (simp add: table_b2a_base64_def URLSAFE_ALPHABET_def urlsafe_encode_translation_def)

lemma alphabet_chars:
  "list_all (\<lambda>c. (of_char c :: nat) < 128 \<and> (of_char c :: nat) \<noteq> 61 \<and> (of_char c :: nat) \<noteq> 46)
     URLSAFE_ALPHABET"
  by (simp add: URLSAFE_ALPHABET_def)

lemma translate_b64chr: "unat (urlsafe_encode_translation (b64chr n)) = urlchr n"
  using list_all2_nthD [OF alphabet_translated, of "n mod 64"]
  by (simp add: b64chr_def urlchr_def table_b2a_base64_def)

lemma urlchr_mem: "urlchr n \<in> set (lit URLSAFE_ALPHABET)"
proof -
  have "URLSAFE_ALPHABET ! (n mod 64) \<in> set URLSAFE_ALPHABET"
    by (rule nth_mem) (simp add: URLSAFE_ALPHABET_def)
  then show ?thesis by (simp add: urlchr_def lit_def)
qed

lemma urlchr_props: "urlchr n < 128" "urlchr n \<noteq> 61" "urlchr n \<noteq> 46"
proof -
  have "URLSAFE_ALPHABET ! (n mod 64) \<in> set URLSAFE_ALPHABET"
    by (rule nth_mem) (simp add: URLSAFE_ALPHABET_def)
  then show "urlchr n < 128" "urlchr n \<noteq> 61" "urlchr n \<noteq> 46"
    using alphabet_chars unfolding urlchr_def list_all_iff by blast+
qed


lemma BASE64URL_NOPAD_chars:
  "c \<in> set (BASE64URL_NOPAD bs) \<Longrightarrow> c < 128 \<and> c \<noteq> 61 \<and> c \<noteq> 46 \<and> c \<in> set (lit URLSAFE_ALPHABET)"
  by (induction bs rule: BASE64URL_NOPAD.induct) (auto simp: urlchr_props urlchr_mem)

lemma length_BASE64URL_NOPAD: "length (BASE64URL_NOPAD bs) = (4 * length bs + 2) div 3"
  by (induction bs rule: BASE64URL_NOPAD.induct) simp_all

lemma unat_translate_pad: "unat (urlsafe_encode_translation BASE64_PAD) = 61"
  by (simp add: urlsafe_encode_translation_def BASE64_PAD_def)

lemma urlsafe_b64encode_shape:
  "map unat (urlsafe_b64encode bs) = BASE64URL_NOPAD bs @ replicate ((3 - length bs mod 3) mod 3) 61"
proof (induction bs rule: b64encode.induct)
  case (4 a b c rest)
  have "length (a # b # c # rest) mod 3 = length rest mod 3" by simp
  with 4 show ?case
    by (simp add: urlsafe_b64encode_def translate_b64chr)
qed (simp_all add: urlsafe_b64encode_def translate_b64chr unat_translate_pad numeral_2_eq_2)

lemma bytes_decode_ascii: "\<forall>b\<in>set bs. unat b < 128 \<Longrightarrow> bytes_decode bs = Inr (map unat bs)"
  by (induction bs) simp_all

lemma str_encode_ascii: "\<forall>c\<in>set s. c < 128 \<Longrightarrow> str_encode s = Inr (map of_nat s)"
  by (induction s) simp_all

lemma rstrip_pad:
  assumes "\<forall>c\<in>set x. c \<noteq> 61"
  shows "rstrip (lit ''='') (x @ replicate k 61) = x"
proof -
  have keep: "dropWhile (\<lambda>c. c = 61) (rev x) = rev x"
  proof (cases "rev x")
    case Nil
    then show ?thesis by simp
  next
    case (Cons y ys)
    then have "y \<in> set (rev x)" by simp
    then have "y \<noteq> 61" using assms by simp
    with Cons show ?thesis by simp
  qed
  have "dropWhile (\<lambda>c. c = 61) (replicate k 61 @ rev x) = rev x"
    using keep by (induction k) simp_all
  then show ?thesis
    by (simp add: rstrip_def lit_def)
qed

lemma urlsafe_b64encode_ascii: "\<forall>b\<in>set (urlsafe_b64encode bs). unat b < 128"
proof -
  have "\<forall>c\<in>set (map unat (urlsafe_b64encode bs)). c < 128"
    unfolding urlsafe_b64encode_shape using BASE64URL_NOPAD_chars by auto
  then show ?thesis by simp
qed

lemma decode_urlsafe_b64encode:
  "bytes_decode (urlsafe_b64encode bs)
     = Inr (BASE64URL_NOPAD bs @ replicate ((3 - length bs mod 3) mod 3) 61)"
  by (simp add: bytes_decode_ascii urlsafe_b64encode_ascii urlsafe_b64encode_shape)

lemma rstrip_decode_urlsafe_b64encode:
  "rstrip (lit ''='') (BASE64URL_NOPAD bs @ replicate k 61) = BASE64URL_NOPAD bs"
  by (rule rstrip_pad) (use BASE64URL_NOPAD_chars in blast)

subsection \<open>The digest has 32 octets\<close>

lemma length_sha_round: "length s = 8 \<Longrightarrow> length (sha_round s kw) = 8"
proof -
  assume "length s = 8"
  then obtain a b c d e f g h where "s = [a, b, c, d, e, f, g, h]"
    by (auto simp: length_Suc_conv eval_nat_numeral)
  then show ?thesis by (cases kw) (simp add: Let_def)
qed

lemma length_foldl_sha_round: "length s = 8 \<Longrightarrow> length (foldl sha_round s kws) = 8"
  by (induction kws arbitrary: s) (simp_all add: length_sha_round)

lemma length_sha_compress: "length hs = 8 \<Longrightarrow> length (sha_compress hs block) = 8"
  by (simp add: sha_compress_def length_foldl_sha_round)

lemma length_sha_blocks: "length hs = 8 \<Longrightarrow> length (sha_blocks hs m) = 8"
proof (induction hs m rule: sha_blocks.induct)
  case (1 hs m)
  show ?case
  proof (cases "length m < 64")
    case True
    with 1 show ?thesis by (subst sha_blocks.simps) simp
  next
    case False
    with 1 show ?thesis by (subst sha_blocks.simps) (simp add: length_sha_compress)
  qed
qed

lemma length_concat_word_bytes: "length (concat (map word_bytes ws)) = 4 * length ws"
  by (induction ws) (simp_all add: word_bytes_def)

lemma length_sha256: "length (sha256 m) = 32"
  by (simp add: sha256_def length_concat_word_bytes length_sha_blocks H256_def)

lemma length_hmac_sha256: "length (hmac_sha256 key msg) = 32"
  by (simp add: hmac_sha256_def Let_def length_sha256)

subsection \<open>The serialisation is printable ASCII\<close>

lemma nat_repr_digits: "c \<in> set (nat_repr n) \<Longrightarrow> 48 \<le> c \<and> c \<le> 57"
proof (induction n rule: nat_repr.induct)
  case (1 n)
  show ?case
  proof (cases "n < 10")
    case True
    with 1(2) show ?thesis by (subst (asm) nat_repr.simps) auto
  next
    case False
    have "n mod 10 < 10" by simp
    with False 1 show ?thesis by (subst (asm) nat_repr.simps) auto
  qed
qed

lemma plain_printable: "plain c \<Longrightarrow> 0x20 \<le> c \<and> c \<le> 0x7E"
  by (simp add: plain_def)

lemma nat_repr_plain: "c \<in> set (nat_repr n) \<Longrightarrow> plain c"
  using nat_repr_digits [of c n] by (simp add: plain_def)

lemma int_repr_plain: "c \<in> set (int_repr i) \<Longrightarrow> plain c"
  by (auto simp: int_repr_def lit_def plain_def dest: nat_repr_digits split: if_splits)

lemma exp_repr_plain: "c \<in> set (exp_repr e) \<Longrightarrow> plain c"
  by (auto simp: exp_repr_def lit_def plain_def dest: nat_repr_digits split: if_splits)

lemma float_repr_plain: "c \<in> set (float_repr sg ip fr ex) \<Longrightarrow> plain c"
proof -
  have d: "plain (48 + d mod 10)" for d :: nat
  proof -
    have "d mod 10 < 10" by simp
    then show ?thesis unfolding plain_def by linarith
  qed
  assume "c \<in> set (float_repr sg ip fr ex)"
  then show ?thesis
    by (auto simp: float_repr_def lit_def d nat_repr_plain exp_repr_plain
             split: if_splits option.splits)
       (simp add: plain_def)+
qed

lemma floatstr_plain: "c \<in> set (floatstr x) \<Longrightarrow> plain c"
proof (cases x)
  case (Finite sg ip fr ex)
  assume "c \<in> set (floatstr x)"
  with Finite show ?thesis by (simp add: float_repr_plain)
qed (auto simp: lit_def plain_def)

lemma hexdigit_plain: "plain (hexdigit d)"
proof -
  have "list_all (\<lambda>c. plain (of_char c)) ''0123456789abcdef''"
    by (simp add: plain_def)
  moreover have "''0123456789abcdef'' ! (d mod 16) \<in> set ''0123456789abcdef''"
    by (rule nth_mem) simp
  ultimately show ?thesis
    unfolding hexdigit_def list_all_iff by blast
qed

lemma printable_append [simp]: "printable (a @ b) = (printable a \<and> printable b)"
  by (simp add: printable_def)

lemma printable_Nil [simp]: "printable []"
  by (simp add: printable_def)

lemma printable_plain: "(\<And>c. c \<in> set s \<Longrightarrow> plain c) \<Longrightarrow> printable s"
  by (auto simp: printable_def list_all_iff dest!: plain_printable)

lemma printable_hex4: "printable (hex4 n)"
  by (rule printable_plain) (auto simp: hex4_def hexdigit_plain)

lemma printable_escape_ascii: "printable (escape_ascii c)"
  by (simp add: escape_ascii_def Let_def printable_hex4) (simp add: printable_def lit_def)

lemma printable_encode_basestring_ascii: "printable (encode_basestring_ascii s)"
proof -
  have "printable (concat (map escape_ascii s))"
    by (induction s) (simp_all add: printable_escape_ascii)
  then show ?thesis
    by (simp add: encode_basestring_ascii_def) (simp add: printable_def lit_def)
qed

lemma int_str_Inr: "int_str env i = Inr s \<Longrightarrow> s = int_repr i"
  by (simp add: int_str_def split: if_splits)

lemma iterencode_printable:
  "iterencode isep ksep env d v = Inr s \<Longrightarrow> printable isep \<Longrightarrow> printable ksep \<Longrightarrow> printable s"
  "iterencode_list isep ksep env d first vs = Inr s \<Longrightarrow> printable isep \<Longrightarrow> printable ksep \<Longrightarrow> printable s"
  "iterencode_dict isep ksep env d first kvs = Inr s \<Longrightarrow> printable isep \<Longrightarrow> printable ksep \<Longrightarrow> printable s"
proof (induction isep ksep env d v and isep ksep env d first vs and isep ksep env d first kvs
       arbitrary: s and s and s rule: iterencode_iterencode_list_iterencode_dict.induct)
  case (1 isep ksep env d s)
  then show ?case by (auto simp: printable_encode_basestring_ascii)
next
  case (2 isep ksep env d)
  then show ?case by (auto simp: lit_def printable_def)
next
  case (3 isep ksep env d b)
  then show ?case by (auto simp: lit_def printable_def split: if_splits)
next
  case (4 isep ksep env d i)
  then show ?case by (auto dest!: int_str_Inr intro!: printable_plain int_repr_plain)
next
  case (5 isep ksep env d x)
  then show ?case by (auto intro!: printable_plain floatstr_plain)
next
  case (6 isep ksep env d xs)
  have "printable (lit ''['')" "printable (lit '']'')" "printable (lit ''[]'')"
    by (simp_all add: lit_def printable_def)
  with 6 show ?case by (auto split: if_splits sum.splits)
next
  case (7 isep ksep env d xs)
  have "printable (lit ''['')" "printable (lit '']'')" "printable (lit ''[]'')"
    by (simp_all add: lit_def printable_def)
  with 7 show ?case by (auto split: if_splits sum.splits)
next
  case (8 isep ksep env d kvs)
  have "printable (lit ''{'')" "printable (lit ''}'')" "printable (lit ''{}'')"
    by (simp_all add: lit_def printable_def)
  with 8 show ?case by (auto split: if_splits sum.splits)
next
  case (9 isep ksep env d)
  then show ?case by (simp split: if_splits)
next
  case (10 isep ksep env d cls)
  then show ?case by (simp split: if_splits)
next
  case (11 isep ksep env d first)
  then show ?case by simp
next
  case (12 isep ksep env d first v vs)
  then show ?case by (auto split: sum.splits if_splits)
next
  case (13 isep ksep env d first)
  then show ?case by simp
next
  case (14 isep ksep env d first k v kvs)
  then show ?case
    by (auto split: sum.splits if_splits simp: printable_encode_basestring_ascii)
qed

lemma dumps_ascii:
  assumes "dumps env p (lit '','', lit '':'') = Inr s"
  shows "\<forall>c\<in>set s. c < 128"
proof -
  have "printable s"
    using assms unfolding dumps_def
    by (rule iterencode_printable(1)) (simp_all add: lit_def printable_def)
  then show ?thesis by (auto simp: printable_def list_all_iff)
qed

lemma BASE64URL_NOPAD_ascii: "\<forall>c\<in>set (BASE64URL_NOPAD bs). c < 128"
  using BASE64URL_NOPAD_chars by blast

lemma b64_step:
  "(case bytes_decode (urlsafe_b64encode bs) of Inl e \<Rightarrow> Inl e
    | Inr padded \<Rightarrow> f (rstrip (lit ''='') padded)) = f (BASE64URL_NOPAD bs)"
  by (simp add: decode_urlsafe_b64encode rstrip_decode_urlsafe_b64encode)

section \<open>The signer, step by step\<close>

lemma sign_unfold:
  "generate_upload_signature env payload secret_key =
     (case dumps env payload (lit '','', lit '':'') of
        Inl e \<Rightarrow> Inl e
      | Inr payload_json \<Rightarrow>
          (case str_encode secret_key of
             Inl e \<Rightarrow> Inl e
           | Inr key \<Rightarrow>
               Inr (BASE64URL_NOPAD (ascii_bytes payload_json) @ lit ''.''
                    @ BASE64URL_NOPAD
                        (hmac_sha256 key
                           (ascii_bytes (BASE64URL_NOPAD (ascii_bytes payload_json)))))))"
proof (cases "dumps env payload (lit '','', lit '':'')")
  case (Inl e)
  then show ?thesis by (simp add: generate_upload_signature_def)
next
  case (Inr j)
  have j: "str_encode j = Inr (ascii_bytes j)"
    using dumps_ascii [OF Inr] by (simp add: str_encode_ascii ascii_bytes_def)
  have m: "str_encode (BASE64URL_NOPAD bs) = Inr (ascii_bytes (BASE64URL_NOPAD bs))" for bs
    using BASE64URL_NOPAD_ascii by (simp add: str_encode_ascii ascii_bytes_def)
  show ?thesis
  proof (cases "str_encode secret_key")
    case k: (Inl e)
    show ?thesis
      unfolding generate_upload_signature_def Inr k
      by (simp add: j decode_urlsafe_b64encode rstrip_decode_urlsafe_b64encode)
  next
    case k: (Inr key)
    show ?thesis
      unfolding generate_upload_signature_def Inr k
      by (simp add: j m decode_urlsafe_b64encode rstrip_decode_urlsafe_b64encode Let_def)
  qed
qed

lemma example_dumps: "dumps default_interp example_payload (lit '','', lit '':'') = Inr example_json"
  by code_simp

lemma example_str_encode: "str_encode example_key = Inr (blit ''test-secret'')"
  by code_simp

lemma example_sign:
  "generate_upload_signature default_interp example_payload example_key =
     Inr (BASE64URL_NOPAD (ascii_bytes example_json) @ lit ''.''
          @ BASE64URL_NOPAD
              (hmac_sha256 (blit ''test-secret'')
                 (ascii_bytes (BASE64URL_NOPAD (ascii_bytes example_json)))))"
  by (simp add: sign_unfold example_dumps example_str_encode)

lemma before_first_token: "d \<notin> set a \<Longrightarrow> before_first d (a @ d # b) = a"
  by (simp add: before_first_def takeWhile_append)

lemma after_last_token: "d \<notin> set b \<Longrightarrow> after_last d (a @ d # b) = b"
  by (simp add: after_last_def takeWhile_append)

lemma alphabet_token_chars: "set (lit URLSAFE_ALPHABET) \<subseteq> token_chars"
  by (simp add: URLSAFE_ALPHABET_def token_chars_def lit_def)

lemma BASE64URL_NOPAD_token_chars: "set (BASE64URL_NOPAD bs) \<subseteq> token_chars"
  using BASE64URL_NOPAD_chars alphabet_token_chars by blast

lemma BASE64URL_NOPAD_no_dot: "DOT \<notin> set (BASE64URL_NOPAD bs)"
  using BASE64URL_NOPAD_chars [of DOT bs] by (auto simp: DOT_def)

lemma sign_Inr:
  assumes "generate_upload_signature env payload secret_key = Inr token"
  obtains payload_json key where
    "dumps env payload (lit '','', lit '':'') = Inr payload_json"
    "str_encode payload_json = Inr (ascii_bytes payload_json)"
    "str_encode secret_key = Inr key"
    "token = BASE64URL_NOPAD (ascii_bytes payload_json) @ lit ''.''
             @ BASE64URL_NOPAD
                 (hmac_sha256 key (ascii_bytes (BASE64URL_NOPAD (ascii_bytes payload_json))))"
proof -
  from assms obtain j where j: "dumps env payload (lit '','', lit '':'') = Inr j"
    by (auto simp: sign_unfold split: sum.splits)
  from assms j obtain key where key: "str_encode secret_key = Inr key"
    by (auto simp: sign_unfold split: sum.splits)
  have "str_encode j = Inr (ascii_bytes j)"
    using dumps_ascii [OF j] by (simp add: str_encode_ascii ascii_bytes_def)
  moreover have "token = BASE64URL_NOPAD (ascii_bytes j) @ lit ''.''
             @ BASE64URL_NOPAD (hmac_sha256 key (ascii_bytes (BASE64URL_NOPAD (ascii_bytes j))))"
    using assms by (simp add: sign_unfold j key)
  ultimately show ?thesis using that j key by blast
qed

lemma lit_dot: "lit ''.'' = [DOT]"
  by (simp add: lit_def DOT_def)



subsection \<open>Decoding base64 gives the octets back\<close>

lemma alphabet_values:
  "list_all2 (\<lambda>c n. b64val (of_char c) = Some n) URLSAFE_ALPHABET [0..<64]"
  by (simp add: upt_rec URLSAFE_ALPHABET_def b64val_def)

lemma b64val_urlchr: "n < 64 \<Longrightarrow> b64val (urlchr n) = Some n"
  using list_all2_nthD [OF alphabet_values, of n]
  by (simp add: urlchr_def URLSAFE_ALPHABET_def)

lemma sextet_bounds:
  fixes x y :: nat
  assumes "x < 256" "y < 256"
  shows "x div 4 < 64" "x mod 4 * 16 + y div 16 < 64" "x mod 16 * 4 + y div 64 < 64" "x mod 64 < 64"
        "x mod 4 * 16 < 64" "x mod 16 * 4 < 64"
proof -
  have a: "x mod 4 < 4" "x mod 16 < 16" "x mod 64 < 64" by simp_all
  have b: "x div 4 < 64" "y div 16 < 16" "y div 64 < 4" using assms by simp_all
  show "x div 4 < 64" "x mod 4 * 16 + y div 16 < 64" "x mod 16 * 4 + y div 64 < 64" "x mod 64 < 64"
        "x mod 4 * 16 < 64" "x mod 16 * 4 < 64"
    using a b by linarith+
qed

lemma sextet_join:
  fixes x y z :: nat
  assumes "x < 256" "y < 256" "z < 256"
  shows "x div 4 * 4 + (x mod 4 * 16 + y div 16) div 16 = x"
        "(x mod 4 * 16 + y div 16) mod 16 * 16 + (y mod 16 * 4 + z div 64) div 4 = y"
        "(y mod 16 * 4 + z div 64) mod 4 * 64 + z mod 64 = z"
        "x div 4 * 4 + (x mod 4 * 16) div 16 = x"
        "(x mod 4 * 16 + y div 16) mod 16 * 16 + (y mod 16 * 4) div 4 = y"
proof -
  have a: "y div 16 < 16" "z div 64 < 4" using assms by simp_all
  have 1: "(x mod 4 * 16 + y div 16) div 16 = x mod 4" using a by simp
  have 2: "(x mod 4 * 16 + y div 16) mod 16 = y div 16" using a by simp
  have 3: "(y mod 16 * 4 + z div 64) div 4 = y mod 16" using a by simp
  have 4: "(y mod 16 * 4 + z div 64) mod 4 = z div 64" using a by simp
  have 5: "y div 16 mod 16 = y div 16" "z div 64 mod 4 = z div 64" using a by simp_all
  show "x div 4 * 4 + (x mod 4 * 16 + y div 16) div 16 = x" by (simp add: 1)
  show "(x mod 4 * 16 + y div 16) mod 16 * 16 + (y mod 16 * 4 + z div 64) div 4 = y"
    by (simp add: 2 3 5)
  show "(y mod 16 * 4 + z div 64) mod 4 * 64 + z mod 64 = z" by (simp add: 4 5)
  show "x div 4 * 4 + (x mod 4 * 16) div 16 = x" by simp
  show "(x mod 4 * 16 + y div 16) mod 16 * 16 + (y mod 16 * 4) div 4 = y" by (simp add: 2 5)
qed

lemma unat_byte_less: "unat (a :: byte) < 256"
  using unsigned_less [of a, where ?'a = nat] by simp

lemma b64val_sextets:
  fixes a b :: byte
  shows "b64val (urlchr (unat a div 4)) = Some (unat a div 4)"
    "b64val (urlchr (unat a mod 4 * 16 + unat b div 16)) = Some (unat a mod 4 * 16 + unat b div 16)"
    "b64val (urlchr (unat a mod 16 * 4 + unat b div 64)) = Some (unat a mod 16 * 4 + unat b div 64)"
    "b64val (urlchr (unat a mod 64)) = Some (unat a mod 64)"
    "b64val (urlchr (unat a mod 4 * 16)) = Some (unat a mod 4 * 16)"
    "b64val (urlchr (unat a mod 16 * 4)) = Some (unat a mod 16 * 4)"
  by (rule b64val_urlchr, rule sextet_bounds [OF unat_byte_less unat_byte_less])+

lemma byte_join:
  fixes a b c :: byte
  shows "of_nat (unat a div 4 * 4 + (unat a mod 4 * 16 + unat b div 16) div 16) = a"
    "of_nat ((unat a mod 4 * 16 + unat b div 16) mod 16 * 16
             + (unat b mod 16 * 4 + unat c div 64) div 4) = b"
    "of_nat ((unat b mod 16 * 4 + unat c div 64) mod 4 * 64 + unat c mod 64) = c"
    "of_nat (unat a div 4 * 4 + (unat a mod 4 * 16) div 16) = a"
    "of_nat ((unat a mod 4 * 16 + unat b div 16) mod 16 * 16 + (unat b mod 16 * 4) div 4) = b"
  by (simp_all only: sextet_join [OF unat_byte_less unat_byte_less unat_byte_less]) simp_all

lemma decode_quad:
  assumes "c3 \<noteq> 0x3D" "c4 \<noteq> 0x3D"
    and "b64val c1 = Some v1" "b64val c2 = Some v2" "b64val c3 = Some v3" "b64val c4 = Some v4"
  shows "urlsafe_b64decode (c1 # c2 # c3 # c4 # rest) =
           (case urlsafe_b64decode rest of
              None \<Rightarrow> None
            | Some bs \<Rightarrow>
                Some (of_nat (v1 * 4 + v2 div 16) # of_nat (v2 mod 16 * 16 + v3 div 4)
                      # of_nat (v3 mod 4 * 64 + v4) # bs))"
  using assms by simp

lemma decode_pad1:
  assumes "c3 \<noteq> 0x3D"
    and "b64val c1 = Some v1" "b64val c2 = Some v2" "b64val c3 = Some v3"
  shows "urlsafe_b64decode [c1, c2, c3, 0x3D] =
           Some [of_nat (v1 * 4 + v2 div 16), of_nat (v2 mod 16 * 16 + v3 div 4)]"
  using assms by simp

lemma decode_pad2:
  assumes "b64val c1 = Some v1" "b64val c2 = Some v2"
  shows "urlsafe_b64decode [c1, c2, 0x3D, 0x3D] = Some [of_nat (v1 * 4 + v2 div 16)]"
  using assms by simp

lemma restore_padding_quad:
  "restore_padding (c1 # c2 # c3 # c4 # s) = c1 # c2 # c3 # c4 # restore_padding s"
  by (simp add: restore_padding_def)

lemma decode_restore_padding:
  "urlsafe_b64decode (restore_padding (BASE64URL_NOPAD bs)) = Some bs"
proof (induction bs rule: BASE64URL_NOPAD.induct)
  case 1
  show ?case by (simp add: restore_padding_def)
next
  case (2 a)
  have r: "restore_padding (BASE64URL_NOPAD [a])
          = [urlchr (unat a div 4), urlchr (unat a mod 4 * 16), 0x3D, 0x3D]"
    by (simp add: restore_padding_def numeral_2_eq_2)
  have "urlsafe_b64decode [urlchr (unat a div 4), urlchr (unat a mod 4 * 16), 0x3D, 0x3D]
          = Some [of_nat (unat a div 4 * 4 + (unat a mod 4 * 16) div 16)]"
    by (rule decode_pad2) (simp_all only: b64val_sextets)
  then show ?case
    by (simp only: r byte_join)
next
  case (3 a b)
  have r: "restore_padding (BASE64URL_NOPAD [a, b])
          = [urlchr (unat a div 4), urlchr (unat a mod 4 * 16 + unat b div 16),
             urlchr (unat b mod 16 * 4), 0x3D]"
    by (simp add: restore_padding_def)
  have "urlsafe_b64decode
          [urlchr (unat a div 4), urlchr (unat a mod 4 * 16 + unat b div 16),
           urlchr (unat b mod 16 * 4), 0x3D]
          = Some [of_nat (unat a div 4 * 4 + (unat a mod 4 * 16 + unat b div 16) div 16),
                  of_nat ((unat a mod 4 * 16 + unat b div 16) mod 16 * 16
                          + (unat b mod 16 * 4) div 4)]"
    by (rule decode_pad1) (simp_all only: b64val_sextets urlchr_props not_False_eq_True)
  then show ?case
    by (simp only: r byte_join)
next
  case (4 a b c rest)
  have "urlsafe_b64decode (restore_padding (BASE64URL_NOPAD (a # b # c # rest)))
          = (case urlsafe_b64decode (restore_padding (BASE64URL_NOPAD rest)) of
               None \<Rightarrow> None
             | Some bs \<Rightarrow>
                 Some (of_nat (unat a div 4 * 4 + (unat a mod 4 * 16 + unat b div 16) div 16)
                       # of_nat ((unat a mod 4 * 16 + unat b div 16) mod 16 * 16
                                + (unat b mod 16 * 4 + unat c div 64) div 4)
                       # of_nat ((unat b mod 16 * 4 + unat c div 64) mod 4 * 64 + unat c mod 64)
                       # bs))"
    unfolding BASE64URL_NOPAD.simps append_Cons append_Nil restore_padding_quad
    by (rule decode_quad) (simp_all only: b64val_sextets urlchr_props not_False_eq_True)
  then show ?case
    by (simp only: 4 byte_join option.case)
qed

lemma BASE64URL_NOPAD_inject: "BASE64URL_NOPAD a = BASE64URL_NOPAD b \<Longrightarrow> a = b"
proof -
  assume "BASE64URL_NOPAD a = BASE64URL_NOPAD b"
  then have "urlsafe_b64decode (restore_padding (BASE64URL_NOPAD a))
               = urlsafe_b64decode (restore_padding (BASE64URL_NOPAD b))"
    by (rule arg_cong)
  then have "Some a = Some b"
    by (simp only: decode_restore_padding)
  then show ?thesis by simp
qed

section \<open>The claims of the specification\<close>

text \<open>
  C1. Whenever the signer returns a token, the token is
  \<open>BASE64URL_NOPAD(json) + "." + BASE64URL_NOPAD(HMAC_SHA256(key, BASE64URL_NOPAD(json)))\<close>,
  where \<open>json\<close> is the serialisation of the payload, the key of the HMAC is the bytes of
  the secret key, and the message of the HMAC is the ASCII bytes of the encoded payload
  (not the bytes of the JSON text).
\<close>

theorem sign_output_format:
  assumes "generate_upload_signature env payload secret_key = Inr token"
  shows "\<exists>payload_json json_bytes key.
           dumps env payload (lit '','', lit '':'') = Inr payload_json
         \<and> str_encode payload_json = Inr json_bytes
         \<and> str_encode secret_key = Inr key
         \<and> token = BASE64URL_NOPAD json_bytes @ lit ''.''
                    @ BASE64URL_NOPAD
                        (hmac_sha256 key (ascii_bytes (BASE64URL_NOPAD json_bytes)))"
  using assms by (elim sign_Inr) blast

theorem sign_output_format_witness:
  "generate_upload_signature default_interp example_payload example_key =
     Inr (BASE64URL_NOPAD (ascii_bytes example_json) @ lit ''.''
          @ BASE64URL_NOPAD
              (hmac_sha256 (blit ''test-secret'')
                 (ascii_bytes (BASE64URL_NOPAD (ascii_bytes example_json)))))
   \<and> (\<exists>payload_json json_bytes key.
           dumps default_interp example_payload (lit '','', lit '':'') = Inr payload_json
         \<and> str_encode payload_json = Inr json_bytes
         \<and> str_encode example_key = Inr key
         \<and> BASE64URL_NOPAD (ascii_bytes example_json) @ lit ''.''
             @ BASE64URL_NOPAD
                 (hmac_sha256 (blit ''test-secret'')
                    (ascii_bytes (BASE64URL_NOPAD (ascii_bytes example_json))))
           = BASE64URL_NOPAD json_bytes @ lit ''.''
             @ BASE64URL_NOPAD
                 (hmac_sha256 key (ascii_bytes (BASE64URL_NOPAD json_bytes))))"
  using sign_output_format [OF example_sign] example_sign by simp

text \<open>
  C5. Whenever the signer returns a token, every character of the token is one of
  \<open>A-Z a-z 0-9 _ . -\<close> (so none is \<open>+\<close>, \<open>/\<close> or \<open>=\<close>), and the token has exactly one
  \<open>.\<close>, between the encoded payload and the encoded signature.
\<close>

theorem sign_alphabet_one_dot:
  assumes "generate_upload_signature env payload secret_key = Inr token"
  shows "set token \<subseteq> token_chars
       \<and> of_char CHR ''+'' \<notin> set token \<and> of_char CHR ''/'' \<notin> set token
       \<and> of_char CHR ''='' \<notin> set token
       \<and> count_list token DOT = 1
       \<and> (\<exists>payload_json key.
             dumps env payload (lit '','', lit '':'') = Inr payload_json
           \<and> str_encode secret_key = Inr key
           \<and> before_first DOT token = BASE64URL_NOPAD (ascii_bytes payload_json)
           \<and> after_last DOT token
               = BASE64URL_NOPAD
                   (hmac_sha256 key (ascii_bytes (BASE64URL_NOPAD (ascii_bytes payload_json))))
           \<and> token = before_first DOT token @ [DOT] @ after_last DOT token)"
proof -
  from assms obtain j key where
    j: "dumps env payload (lit '','', lit '':'') = Inr j" and
    key: "str_encode secret_key = Inr key" and
    tok: "token = BASE64URL_NOPAD (ascii_bytes j) @ lit ''.''
            @ BASE64URL_NOPAD (hmac_sha256 key (ascii_bytes (BASE64URL_NOPAD (ascii_bytes j))))"
    by (elim sign_Inr)
  define ep where "ep = BASE64URL_NOPAD (ascii_bytes j)"
  define sg where
    "sg = BASE64URL_NOPAD (hmac_sha256 key (ascii_bytes (BASE64URL_NOPAD (ascii_bytes j))))"
  have t: "token = ep @ DOT # sg"
    using tok by (simp add: ep_def sg_def lit_dot)
  have nd: "DOT \<notin> set ep" "DOT \<notin> set sg"
    by (simp_all add: ep_def sg_def BASE64URL_NOPAD_no_dot)
  have sub: "set ep \<subseteq> token_chars" "set sg \<subseteq> token_chars"
    by (simp_all add: ep_def sg_def BASE64URL_NOPAD_token_chars)
  have dot: "DOT \<in> token_chars"
    by (simp add: DOT_def token_chars_def lit_def)
  have a: "set token \<subseteq> token_chars"
    using sub dot by (simp add: t)
  have "of_char CHR ''+'' \<notin> token_chars" "of_char CHR ''/'' \<notin> token_chars"
       "of_char CHR ''='' \<notin> token_chars"
    by (simp_all add: token_chars_def lit_def)
  then have b: "of_char CHR ''+'' \<notin> set token" "of_char CHR ''/'' \<notin> set token"
       "of_char CHR ''='' \<notin> set token"
    using a by blast+
  have c: "count_list token DOT = 1"
    using nd by (simp add: t count_list_0_iff)
  have d: "before_first DOT token = ep" "after_last DOT token = sg"
    using nd by (simp_all add: t before_first_token after_last_token)
  have e: "token = before_first DOT token @ [DOT] @ after_last DOT token"
    by (simp add: d) (simp add: t)
  show ?thesis
    using a b c d e j key unfolding ep_def sg_def by blast
qed

theorem sign_alphabet_one_dot_witness:
  "generate_upload_signature default_interp example_payload example_key
     = Inr (projr (generate_upload_signature default_interp example_payload example_key))
   \<and> set (projr (generate_upload_signature default_interp example_payload example_key)) \<subseteq> token_chars
   \<and> count_list (projr (generate_upload_signature default_interp example_payload example_key)) DOT = 1"
proof -
  have h: "generate_upload_signature default_interp example_payload example_key
             = Inr (projr (generate_upload_signature default_interp example_payload example_key))"
    by (simp add: example_sign)
  show ?thesis
    using h sign_alphabet_one_dot [OF h] by blast
qed

text \<open>
  C9. Whenever the signer returns a token, the part of the token after its last \<open>.\<close> has
  exactly 43 characters: the digest has 32 octets, its padded base64 text has 44
  characters, the last of which (and no other) is \<open>=\<close>, and that one is stripped.
\<close>

theorem signature_segment_length:
  assumes "generate_upload_signature env payload secret_key = Inr token"
  shows "length (after_last DOT token) = 43
       \<and> (\<exists>key msg.
             length (hmac_sha256 key msg) = 32
           \<and> bytes_decode (urlsafe_b64encode (hmac_sha256 key msg))
               = Inr (after_last DOT token @ lit ''='')
           \<and> length (after_last DOT token @ lit ''='') = 44
           \<and> of_char CHR ''='' \<notin> set (after_last DOT token))"
proof -
  from assms obtain j key where
    tok: "token = BASE64URL_NOPAD (ascii_bytes j) @ lit ''.''
            @ BASE64URL_NOPAD (hmac_sha256 key (ascii_bytes (BASE64URL_NOPAD (ascii_bytes j))))"
    by (elim sign_Inr)
  define msg where "msg = ascii_bytes (BASE64URL_NOPAD (ascii_bytes j))"
  have sg: "after_last DOT token = BASE64URL_NOPAD (hmac_sha256 key msg)"
    unfolding tok msg_def lit_dot append_Cons append_Nil
    by (rule after_last_token) (rule BASE64URL_NOPAD_no_dot)
  have len: "length (hmac_sha256 key msg) = 32"
    by (rule length_hmac_sha256)
  have l43: "length (after_last DOT token) = 43"
    by (simp add: sg length_BASE64URL_NOPAD len)
  have dec: "bytes_decode (urlsafe_b64encode (hmac_sha256 key msg))
               = Inr (after_last DOT token @ lit ''='')"
    by (simp add: decode_urlsafe_b64encode len sg lit_def)
  have ne: "of_char CHR ''='' \<notin> set (after_last DOT token)"
    using BASE64URL_NOPAD_chars [of 61 "hmac_sha256 key msg"] by (auto simp: sg)
  show ?thesis
    using l43 len dec ne by (auto simp: lit_def)
qed

theorem signature_segment_length_witness:
  "generate_upload_signature default_interp example_payload example_key
     = Inr (projr (generate_upload_signature default_interp example_payload example_key))
   \<and> length (after_last DOT (projr (generate_upload_signature default_interp example_payload example_key))) = 43"
proof -
  have h: "generate_upload_signature default_interp example_payload example_key
             = Inr (projr (generate_upload_signature default_interp example_payload example_key))"
    by (simp add: example_sign)
  show ?thesis
    using h signature_segment_length [OF h] by blast
qed

text \<open>
  C10. For one payload and any two secret keys on which the signer returns a token, the
  two tokens have the same part before the first \<open>.\<close>: it is the encoded payload, in which
  the secret key has no part.
\<close>

theorem payload_segment_independent_of_key:
  assumes "generate_upload_signature env payload k1 = Inr t1"
      and "generate_upload_signature env payload k2 = Inr t2"
  shows "before_first DOT t1 = before_first DOT t2
       \<and> (\<exists>payload_json.
             dumps env payload (lit '','', lit '':'') = Inr payload_json
           \<and> before_first DOT t1 = BASE64URL_NOPAD (ascii_bytes payload_json))"
proof -
  from assms(1) obtain j key1 where
    j: "dumps env payload (lit '','', lit '':'') = Inr j" and
    t1: "t1 = BASE64URL_NOPAD (ascii_bytes j) @ lit ''.''
            @ BASE64URL_NOPAD (hmac_sha256 key1 (ascii_bytes (BASE64URL_NOPAD (ascii_bytes j))))"
    by (elim sign_Inr)
  from assms(2) obtain j' key2 where
    j': "dumps env payload (lit '','', lit '':'') = Inr j'" and
    t2: "t2 = BASE64URL_NOPAD (ascii_bytes j') @ lit ''.''
            @ BASE64URL_NOPAD (hmac_sha256 key2 (ascii_bytes (BASE64URL_NOPAD (ascii_bytes j'))))"
    by (elim sign_Inr)
  have same: "j' = j" using j j' by simp
  have b1: "before_first DOT t1 = BASE64URL_NOPAD (ascii_bytes j)"
    unfolding t1 lit_dot append_Cons append_Nil
    by (rule before_first_token) (rule BASE64URL_NOPAD_no_dot)
  have b2: "before_first DOT t2 = BASE64URL_NOPAD (ascii_bytes j)"
    unfolding t2 same lit_dot append_Cons append_Nil
    by (rule before_first_token) (rule BASE64URL_NOPAD_no_dot)
  show ?thesis using b1 b2 j by simp
qed

theorem payload_segment_independent_of_key_witness:
  "generate_upload_signature default_interp example_payload example_key
     = Inr (projr (generate_upload_signature default_interp example_payload example_key))
   \<and> generate_upload_signature default_interp example_payload (lit ''other'')
     = Inr (projr (generate_upload_signature default_interp example_payload (lit ''other'')))
   \<and> before_first DOT (projr (generate_upload_signature default_interp example_payload example_key))
     = before_first DOT (projr (generate_upload_signature default_interp example_payload (lit ''other'')))"
proof -
  have h1: "generate_upload_signature default_interp example_payload example_key
             = Inr (projr (generate_upload_signature default_interp example_payload example_key))"
    by (simp add: example_sign)
  have "str_encode (lit ''other'') = Inr (blit ''other'')"
    by code_simp
  then have h2: "generate_upload_signature default_interp example_payload (lit ''other'')
             = Inr (projr (generate_upload_signature default_interp example_payload (lit ''other'')))"
    by (simp add: sign_unfold example_dumps)
  show ?thesis
    using h1 h2 payload_segment_independent_of_key [OF h1 h2] by blast
qed

lemma utf8_char_cases:
  "utf8_char c = Inl e \<Longrightarrow> e = UnicodeEncodeError"
  "(\<exists>b. utf8_char c = Inr b) = (c < 0x110000 \<and> \<not> (0xD800 \<le> c \<and> c < 0xE000))"
  by (auto split: if_splits)

lemma str_encode_error: "str_encode s = Inl e \<Longrightarrow> e = UnicodeEncodeError"
  by (induction s) (auto split: sum.splits dest: utf8_char_cases(1) simp del: utf8_char.simps)

lemma str_encode_encodable: "(\<exists>bs. str_encode s = Inr bs) = encodable s"
proof (induction s)
  case Nil
  show ?case by (simp add: encodable_def)
next
  case (Cons c cs)
  have "(\<exists>bs. str_encode (c # cs) = Inr bs)
          = ((\<exists>b. utf8_char c = Inr b) \<and> (\<exists>bs. str_encode cs = Inr bs))"
    by (auto split: sum.splits simp del: utf8_char.simps)
  then show ?case
    using Cons by (simp only: utf8_char_cases(2)) (simp add: encodable_def)
qed

lemma int_str_cases:
  "(case int_str env i of
      Inl e \<Rightarrow> e = ValueError \<and> \<not> digits_ok env i | Inr s \<Rightarrow> digits_ok env i)"
  by (auto simp: int_str_def digits_ok_def)

lemma key_str_representable:
  "(case key_str env k of
      Inl e \<Rightarrow> serialization_error e \<and> \<not> key_representable env k
    | Inr s \<Rightarrow> key_representable env k)"
proof (cases k)
  case (PInt i)
  then show ?thesis
    using int_str_cases [of env i] by (auto simp: serialization_error_def split: sum.splits)
next
  case (PBool b)
  then show ?thesis by (cases b) simp_all
qed (simp_all add: serialization_error_def)

lemma iterencode_representable:
  "(case iterencode isep ksep env d v of
      Inl e \<Rightarrow> serialization_error e \<and> \<not> (values_ok env v \<and> nesting v \<le> d)
    | Inr s \<Rightarrow> values_ok env v \<and> nesting v \<le> d)"
  "(case iterencode_list isep ksep env d first vs of
      Inl e \<Rightarrow> serialization_error e \<and> \<not> (values_ok_list env vs \<and> nesting_list vs \<le> d)
    | Inr s \<Rightarrow> values_ok_list env vs \<and> nesting_list vs \<le> d)"
  "(case iterencode_dict isep ksep env d first kvs of
      Inl e \<Rightarrow> serialization_error e \<and> \<not> (values_ok_items env kvs \<and> nesting_items kvs \<le> d)
    | Inr s \<Rightarrow> values_ok_items env kvs \<and> nesting_items kvs \<le> d)"
proof (induction isep ksep env d v and isep ksep env d first vs and isep ksep env d first kvs
       rule: iterencode_iterencode_list_iterencode_dict.induct)
  case (4 isep ksep env d i)
  show ?case
    using int_str_cases [of env i] by (auto simp: serialization_error_def split: sum.splits)
next
  case (6 isep ksep env d xs)
  show ?case
  proof (cases "d = 0 \<or> xs = []")
    case True
    then show ?thesis by (auto simp: serialization_error_def)
  next
    case False
    then have le: "(Suc (nesting_list xs) \<le> d) = (nesting_list xs \<le> d - 1)" by auto
    from False 6 show ?thesis by (auto simp: le split: sum.splits)
  qed
next
  case (7 isep ksep env d xs)
  show ?case
  proof (cases "d = 0 \<or> xs = []")
    case True
    then show ?thesis by (auto simp: serialization_error_def)
  next
    case False
    then have le: "(Suc (nesting_list xs) \<le> d) = (nesting_list xs \<le> d - 1)" by auto
    from False 7 show ?thesis by (auto simp: le split: sum.splits)
  qed
next
  case (8 isep ksep env d kvs)
  show ?case
  proof (cases "d = 0 \<or> kvs = []")
    case True
    then show ?thesis by (auto simp: serialization_error_def)
  next
    case False
    then have le: "(Suc (nesting_items kvs) \<le> d) = (nesting_items kvs \<le> d - 1)" by auto
    from False 8 show ?thesis by (auto simp: le split: sum.splits)
  qed
next
  case (12 isep ksep env d first v vs)
  then show ?case by (auto split: sum.splits)
next
  case (14 isep ksep env d first k v kvs)
  show ?case
  proof (cases "key_str env k")
    case (Inl e)
    then show ?thesis using key_str_representable [of env k] by simp
  next
    case kk: (Inr key)
    then have ok: "key_representable env k" using key_str_representable [of env k] by simp
    show ?thesis
    proof (cases "iterencode isep ksep env d v")
      case (Inl e)
      with 14(1) [OF kk] kk show ?thesis by auto
    next
      case vv: (Inr s)
      with 14(1) [OF kk] have sv: "values_ok env v \<and> nesting v \<le> d" by simp
      from 14(2) [OF kk vv] show ?thesis
        using kk vv ok sv by (auto split: sum.splits)
    qed
  qed
qed (auto simp: serialization_error_def)

lemma dumps_representable:
  "(\<exists>e. dumps env p seps = Inl e) = (\<not> representable env p)"
  "dumps env p seps = Inl e \<Longrightarrow> serialization_error e"
  "(\<exists>s. dumps env p seps = Inr s) = representable env p"
  using iterencode_representable(1)
    [where isep = "fst seps" and ksep = "snd seps" and env = env
       and d = "Suc (recursion_budget env)" and v = p]
  by (auto simp: dumps_def representable_def split: sum.splits)

lemma hmac_key_pad:
  assumes "length k < 64"
  shows "hmac_key (k @ [0]) = hmac_key k"
proof -
  have "64 - length k = Suc (64 - Suc (length k))"
    using assms by simp
  then have "replicate (64 - length k) (0 :: byte) = 0 # replicate (64 - Suc (length k)) 0"
    by (simp only: replicate_Suc)
  then show ?thesis
    using assms by (simp add: hmac_key_def ljust_def blocksize_def)
qed

lemma example_key_encodable: "encodable example_key"
  by (simp add: encodable_def example_key_def lit_def)

lemma sign_serialization_error:
  "(\<exists>e. generate_upload_signature env payload secret_key = Inl e \<and> serialization_error e)
     = (\<not> representable env payload)"
proof (cases "dumps env payload (lit '','', lit '':'')")
  case (Inl e)
  then show ?thesis
    using dumps_representable(1,2) [of env payload "(lit '','', lit '':'')"]
    by (auto simp: sign_unfold)
next
  case (Inr j)
  then have "representable env payload"
    using dumps_representable(3) [of env payload "(lit '','', lit '':'')"] by auto
  then show ?thesis
    using Inr
    by (auto simp: sign_unfold serialization_error_def split: sum.splits dest: str_encode_error)
qed

text \<open>
  C3 (amended). The signer fails with a serialisation error (the \<open>TypeError\<close>, \<open>ValueError\<close>
  or \<open>RecursionError\<close> of \<open>json.dumps\<close>) exactly when the payload cannot be serialised: it
  holds a value of an unsupported type, a dict key that is not a \<open>str\<close>, \<open>int\<close>, \<open>float\<close>,
  \<open>bool\<close> or \<open>None\<close>, a circular reference, an int with more digits than the interpreter
  converts to text, or containers nested deeper than the interpreter's recursion limit
  allows. For such a payload no token is returned. A non-finite float is not such a
  value: it is serialised (as \<open>NaN\<close>, \<open>Infinity\<close>, \<open>-Infinity\<close>) and the payload is signed.
\<close>

theorem serialization_failure:
  "((\<exists>e. generate_upload_signature env payload secret_key = Inl e \<and> serialization_error e)
      = (\<not> representable env payload))
   \<and> (\<not> representable env payload \<longrightarrow>
        (\<forall>token. generate_upload_signature env payload secret_key \<noteq> Inr token))"
proof -
  have a: "(\<exists>e. generate_upload_signature env payload secret_key = Inl e \<and> serialization_error e)
             = (\<not> representable env payload)"
    by (rule sign_serialization_error)
  have b: "\<not> representable env payload \<longrightarrow>
        (\<forall>token. generate_upload_signature env payload secret_key \<noteq> Inr token)"
    using a by auto
  show ?thesis using a b by blast
qed

theorem serialization_failure_witness:
  "\<not> representable default_interp unserializable_payload
   \<and> generate_upload_signature default_interp unserializable_payload example_key = Inl TypeError
   \<and> \<not> representable default_interp circular_payload
   \<and> generate_upload_signature default_interp circular_payload example_key = Inl ValueError
   \<and> (\<exists>e. generate_upload_signature default_interp circular_payload example_key = Inl e
          \<and> serialization_error e)
   \<and> representable default_interp nan_payload
   \<and> (\<nexists>e. generate_upload_signature default_interp nan_payload example_key = Inl e
          \<and> serialization_error e)"
proof -
  have h1: "\<not> representable default_interp unserializable_payload"
    by (simp add: unserializable_payload_def representable_def)
  have h2: "\<not> representable default_interp circular_payload"
    by (simp add: circular_payload_def representable_def)
  have h3: "representable default_interp nan_payload"
    by (simp add: nan_payload_def representable_def default_interp_def)
  have e1: "generate_upload_signature default_interp unserializable_payload example_key
              = Inl TypeError"
    by (simp add: sign_unfold dumps_def unserializable_payload_def default_interp_def)
  have e2: "generate_upload_signature default_interp circular_payload example_key
              = Inl ValueError"
    by (simp add: sign_unfold dumps_def circular_payload_def default_interp_def)
  have e3: "\<exists>e. generate_upload_signature default_interp circular_payload example_key = Inl e
          \<and> serialization_error e"
    using h2 serialization_failure [of default_interp circular_payload example_key] by blast
  have e4: "\<nexists>e. generate_upload_signature default_interp nan_payload example_key = Inl e
          \<and> serialization_error e"
    using h3 serialization_failure [of default_interp nan_payload example_key] by blast
  show ?thesis using h1 h2 h3 e1 e2 e3 e4 by blast
qed

theorem serialization_failure_counterexample:
  \<open>dumps default_interp nan_payload (lit '','', lit '':'') = Inr (lit ''{"x":NaN}'')
   \<and> generate_upload_signature default_interp nan_payload example_key
       = Inr (BASE64URL_NOPAD (ascii_bytes (lit ''{"x":NaN}'')) @ lit ''.''
              @ BASE64URL_NOPAD
                  (hmac_sha256 (blit ''test-secret'')
                     (ascii_bytes (BASE64URL_NOPAD (ascii_bytes (lit ''{"x":NaN}''))))))\<close>
proof -
  have d: \<open>dumps default_interp nan_payload (lit '','', lit '':'') = Inr (lit ''{"x":NaN}'')\<close>
    by (simp add: dumps_def nan_payload_def encode_basestring_ascii_def escape_ascii_def lit_def)
  show ?thesis
    by (simp add: sign_unfold d example_str_encode)
qed



lemma hmac_sha256_outer: "hmac_sha256 key msg = sha256 (hmac_outer_input key msg)"
  by (simp add: hmac_sha256_def hmac_outer_input_def Let_def)

lemma length_hmac_key: "length (hmac_key key) = 64"
  by (simp add: hmac_key_def ljust_def blocksize_def length_sha256)

lemma xor_map_inject:
  "map (\<lambda>x. x XOR c) a = map (\<lambda>x. x XOR (c :: byte)) b \<Longrightarrow> a = b"
proof -
  assume h: "map (\<lambda>x. x XOR c) a = map (\<lambda>x. x XOR c) b"
  have "inj (\<lambda>x. x XOR c)"
  proof (rule injI)
    fix x y :: byte
    assume "x XOR c = y XOR c"
    then have "(x XOR c) XOR c = (y XOR c) XOR c" by simp
    then show "x = y" by (simp add: xor.assoc)
  qed
  then show ?thesis using h by (simp add: inj_map_eq_map)
qed

lemma hmac_outer_input_key:
  assumes "hmac_key key1 \<noteq> hmac_key key2"
  shows "hmac_outer_input key1 msg1 \<noteq> hmac_outer_input key2 msg2"
proof
  assume "hmac_outer_input key1 msg1 = hmac_outer_input key2 msg2"
  then have "map (\<lambda>x. x XOR 0x5C) (hmac_key key1) = map (\<lambda>x. x XOR 0x5C) (hmac_key key2)"
    by (simp add: hmac_outer_input_def length_hmac_key)
  then show False using assms xor_map_inject by blast
qed

lemma of_nat_byte_inject:
  assumes "a < 256" "b < 256" "(of_nat a :: byte) = of_nat b"
  shows "a = b"
proof -
  have "unat (of_nat a :: byte) = a" "unat (of_nat b :: byte) = b"
    using assms(1,2) by (simp_all add: unat_of_nat)
  then show ?thesis using assms(3) by metis
qed

lemma ascii_bytes_inject:
  assumes "\<forall>c\<in>set s. c < 128" "\<forall>c\<in>set t. c < 128" "ascii_bytes s = ascii_bytes t"
  shows "s = t"
proof -
  have len: "length s = length t"
    using assms(3) by (metis ascii_bytes_def length_map)
  have "s ! i = t ! i" if "i < length s" for i
  proof -
    have "(of_nat (s ! i) :: byte) = of_nat (t ! i)"
      using assms(3) that len by (metis ascii_bytes_def nth_map)
    moreover have "s ! i < 256" "t ! i < 256"
      using assms(1,2) that len by (auto simp: less_trans [of _ 128 256] dest!: bspec nth_mem)
    ultimately show ?thesis by (rule of_nat_byte_inject [rotated 2])
  qed
  then show ?thesis using len by (simp add: list_eq_iff_nth_eq)
qed

lemma card_ascii_keys: "finite ascii_keys" "card ascii_keys = 128 ^ 64"
  using finite_lists_length_eq [of "{..<128::nat}" 64] card_lists_length_eq [of "{..<128::nat}" 64]
  by (simp_all add: ascii_keys_def)

lemma card_digests:
  "finite {bs :: bytes. length bs = 32}" "card {bs :: bytes. length bs = 32} = 256 ^ 32"
  using finite_lists_length_eq [of "UNIV :: byte set" 32]
    card_lists_length_eq [of "UNIV :: byte set" 32]
  by (simp_all add: card_word)

lemma hmac_not_injective:
  "\<exists>s1\<in>ascii_keys. \<exists>s2\<in>ascii_keys.
     s1 \<noteq> s2 \<and> hmac_sha256 (ascii_bytes s1) msg = hmac_sha256 (ascii_bytes s2) msg"
proof -
  let ?f = "\<lambda>s. hmac_sha256 (ascii_bytes s) msg"
  have sub: "?f ` ascii_keys \<subseteq> {bs. length bs = 32}"
    by (auto simp: length_hmac_sha256)
  have "card (?f ` ascii_keys) \<le> card {bs :: bytes. length bs = 32}"
    using sub card_digests(1) by (rule card_mono [rotated])
  also have "\<dots> < card ascii_keys"
    by (simp add: card_digests(2) card_ascii_keys(2))
  finally have "\<not> inj_on ?f ascii_keys"
    using pigeonhole by blast
  then show ?thesis by (auto simp: inj_on_def)
qed

lemma hmac_key_ascii_key: "s \<in> ascii_keys \<Longrightarrow> hmac_key (ascii_bytes s) = ascii_bytes s"
  by (simp add: ascii_keys_def hmac_key_def ljust_def blocksize_def ascii_bytes_def)

lemma str_encode_ascii_key: "s \<in> ascii_keys \<Longrightarrow> str_encode s = Inr (ascii_bytes s)"
  using str_encode_ascii [of s] by (auto simp: ascii_keys_def ascii_bytes_def)

lemma equal_tokens_distinct_key_blocks:
  assumes "dumps env payload (lit '','', lit '':'') = Inr payload_json"
  shows "\<exists>s1 s2 key1 key2 t.
           str_encode s1 = Inr key1 \<and> str_encode s2 = Inr key2
         \<and> hmac_key key1 \<noteq> hmac_key key2
         \<and> generate_upload_signature env payload s1 = Inr t
         \<and> generate_upload_signature env payload s2 = Inr t"
proof -
  define msg where "msg = ascii_bytes (BASE64URL_NOPAD (ascii_bytes payload_json))"
  obtain s1 s2 where s: "s1 \<in> ascii_keys" "s2 \<in> ascii_keys" "s1 \<noteq> s2"
    "hmac_sha256 (ascii_bytes s1) msg = hmac_sha256 (ascii_bytes s2) msg"
    using hmac_not_injective [of msg] by blast
  have ne: "ascii_bytes s1 \<noteq> ascii_bytes s2"
    using s(1,2,3) ascii_bytes_inject [of s1 s2] by (auto simp: ascii_keys_def)
  have k: "hmac_key (ascii_bytes s1) \<noteq> hmac_key (ascii_bytes s2)"
    using ne s(1,2) by (simp add: hmac_key_ascii_key)
  have t1: "generate_upload_signature env payload s1
              = Inr (BASE64URL_NOPAD (ascii_bytes payload_json) @ lit ''.''
                     @ BASE64URL_NOPAD (hmac_sha256 (ascii_bytes s1) msg))"
    using s(1) by (simp add: sign_unfold assms str_encode_ascii_key msg_def)
  have t2: "generate_upload_signature env payload s2
              = Inr (BASE64URL_NOPAD (ascii_bytes payload_json) @ lit ''.''
                     @ BASE64URL_NOPAD (hmac_sha256 (ascii_bytes s1) msg))"
    using s(2) s(4) by (simp add: sign_unfold assms str_encode_ascii_key msg_def)
  show ?thesis
    using t1 t2 k s(1,2) str_encode_ascii_key by blast
qed

text \<open>
  C7 (amended). For one payload and two secret keys on which the signer returns a token:
  when the two keys give the same 64-octet HMAC key block (a key of fewer than 64 octets
  and the same key followed by NUL characters do), the two tokens are equal; when the key
  blocks differ, the two tokens differ unless the two 96-octet strings that HMAC feeds to
  its outer hash, which then differ, are a collision of SHA-256. Such pairs exist: for
  every payload that is signed there are two keys with different key blocks and the same
  token, so key sensitivity holds up to the collisions of the hash and not for every pair
  of keys.
\<close>

theorem key_sensitivity:
  assumes "generate_upload_signature env payload k1 = Inr t1"
      and "generate_upload_signature env payload k2 = Inr t2"
  shows "\<exists>payload_json key1 key2 msg.
           dumps env payload (lit '','', lit '':'') = Inr payload_json
         \<and> str_encode k1 = Inr key1 \<and> str_encode k2 = Inr key2
         \<and> msg = ascii_bytes (BASE64URL_NOPAD (ascii_bytes payload_json))
         \<and> (hmac_key key1 = hmac_key key2 \<longrightarrow> t1 = t2)
         \<and> (hmac_key key1 \<noteq> hmac_key key2 \<longrightarrow>
               t1 \<noteq> t2
               \<or> sha256_collision (hmac_outer_input key1 msg) (hmac_outer_input key2 msg))
         \<and> (\<exists>s1 s2 b1 b2 t.
               str_encode s1 = Inr b1 \<and> str_encode s2 = Inr b2
             \<and> hmac_key b1 \<noteq> hmac_key b2
             \<and> generate_upload_signature env payload s1 = Inr t
             \<and> generate_upload_signature env payload s2 = Inr t)"
proof -
  from assms(1) obtain j key1 where
    j: "dumps env payload (lit '','', lit '':'') = Inr j" and
    key1: "str_encode k1 = Inr key1" and
    t1: "t1 = BASE64URL_NOPAD (ascii_bytes j) @ lit ''.''
            @ BASE64URL_NOPAD (hmac_sha256 key1 (ascii_bytes (BASE64URL_NOPAD (ascii_bytes j))))"
    by (elim sign_Inr)
  from assms(2) j obtain key2 where
    key2: "str_encode k2 = Inr key2" and
    t2: "t2 = BASE64URL_NOPAD (ascii_bytes j) @ lit ''.''
            @ BASE64URL_NOPAD (hmac_sha256 key2 (ascii_bytes (BASE64URL_NOPAD (ascii_bytes j))))"
    by (elim sign_Inr) simp
  define msg where "msg = ascii_bytes (BASE64URL_NOPAD (ascii_bytes j))"
  have eq: "(t1 = t2) = (hmac_sha256 key1 msg = hmac_sha256 key2 msg)"
    unfolding t1 t2 msg_def [symmetric]
    using BASE64URL_NOPAD_inject by auto
  have "hmac_key key1 = hmac_key key2 \<longrightarrow> hmac_sha256 key1 msg = hmac_sha256 key2 msg"
    by (simp add: hmac_sha256_def)
  then have same: "hmac_key key1 = hmac_key key2 \<longrightarrow> t1 = t2"
    using eq by simp
  have other: "t1 \<noteq> t2
               \<or> sha256_collision (hmac_outer_input key1 msg) (hmac_outer_input key2 msg)"
    if "hmac_key key1 \<noteq> hmac_key key2"
  proof (cases "t1 = t2")
    case True
    then have "sha256 (hmac_outer_input key1 msg) = sha256 (hmac_outer_input key2 msg)"
      using eq by (simp add: hmac_sha256_outer)
    moreover have "hmac_outer_input key1 msg \<noteq> hmac_outer_input key2 msg"
      using that by (rule hmac_outer_input_key)
    ultimately show ?thesis by (simp add: sha256_collision_def)
  next
    case False
    then show ?thesis by simp
  qed
  have ex: "\<exists>s1 s2 b1 b2 t.
               str_encode s1 = Inr b1 \<and> str_encode s2 = Inr b2
             \<and> hmac_key b1 \<noteq> hmac_key b2
             \<and> generate_upload_signature env payload s1 = Inr t
             \<and> generate_upload_signature env payload s2 = Inr t"
    using j by (rule equal_tokens_distinct_key_blocks)
  show ?thesis
    using j key1 key2 same other ex unfolding msg_def by blast
qed

lemma str_encode_a: "str_encode (lit ''a'') = Inr [0x61]"
  by code_simp

lemma str_encode_a0: "str_encode (lit ''a'' @ [0]) = Inr [0x61, 0]"
  by code_simp

lemma str_encode_b: "str_encode (lit ''b'') = Inr [0x62]"
  by code_simp

lemma hmac_a0: "hmac_sha256 [0x61, 0] msg = hmac_sha256 [0x61] msg"
  using hmac_key_pad [of "[0x61]"] by (simp add: hmac_sha256_def)

theorem key_sensitivity_counterexample:
  "lit ''a'' \<noteq> lit ''a'' @ [0]
   \<and> generate_upload_signature default_interp example_payload (lit ''a'')
     = Inr (BASE64URL_NOPAD (ascii_bytes example_json) @ lit ''.''
          @ BASE64URL_NOPAD
              (hmac_sha256 [0x61] (ascii_bytes (BASE64URL_NOPAD (ascii_bytes example_json)))))
   \<and> generate_upload_signature default_interp example_payload (lit ''a'' @ [0])
     = generate_upload_signature default_interp example_payload (lit ''a'')"
  by (simp add: sign_unfold example_dumps str_encode_a str_encode_a0 hmac_a0)

theorem key_sensitivity_witness:
  "generate_upload_signature default_interp example_payload (lit ''a'')
     = Inr (projr (generate_upload_signature default_interp example_payload (lit ''a'')))
   \<and> generate_upload_signature default_interp example_payload (lit ''a'' @ [0])
     = Inr (projr (generate_upload_signature default_interp example_payload (lit ''a'' @ [0])))
   \<and> generate_upload_signature default_interp example_payload (lit ''b'')
     = Inr (projr (generate_upload_signature default_interp example_payload (lit ''b'')))
   \<and> hmac_key [0x61] = hmac_key [0x61, 0]
   \<and> projr (generate_upload_signature default_interp example_payload (lit ''a''))
       = projr (generate_upload_signature default_interp example_payload (lit ''a'' @ [0]))
   \<and> hmac_key [0x61] \<noteq> hmac_key [0x62]
   \<and> (sha256_collision
         (hmac_outer_input [0x61] (ascii_bytes (BASE64URL_NOPAD (ascii_bytes example_json))))
         (hmac_outer_input [0x62] (ascii_bytes (BASE64URL_NOPAD (ascii_bytes example_json))))
       \<or> projr (generate_upload_signature default_interp example_payload (lit ''a''))
           \<noteq> projr (generate_upload_signature default_interp example_payload (lit ''b'')))"
proof -
  have h1: "generate_upload_signature default_interp example_payload (lit ''a'')
     = Inr (projr (generate_upload_signature default_interp example_payload (lit ''a'')))"
    by (simp add: sign_unfold example_dumps str_encode_a)
  have h2: "generate_upload_signature default_interp example_payload (lit ''a'' @ [0])
     = Inr (projr (generate_upload_signature default_interp example_payload (lit ''a'' @ [0])))"
    by (simp add: sign_unfold example_dumps str_encode_a0)
  have h3: "generate_upload_signature default_interp example_payload (lit ''b'')
     = Inr (projr (generate_upload_signature default_interp example_payload (lit ''b'')))"
    by (simp add: sign_unfold example_dumps str_encode_b)
  have k: "hmac_key [0x61] = hmac_key [0x61, 0]"
    using hmac_key_pad [of "[0x61]"] by simp
  have n: "hmac_key [0x61] \<noteq> hmac_key [0x62]"
    by (simp add: hmac_key_def ljust_def blocksize_def)
  from key_sensitivity [OF h1 h2] obtain key1 key2 where
    a: "str_encode (lit ''a'') = Inr key1" "str_encode (lit ''a'' @ [0]) = Inr key2"
       "hmac_key key1 = hmac_key key2 \<longrightarrow>
          projr (generate_upload_signature default_interp example_payload (lit ''a''))
           = projr (generate_upload_signature default_interp example_payload (lit ''a'' @ [0]))"
    by blast
  from a(1,2) have "key1 = [0x61]" "key2 = [0x61, 0]"
    by (simp_all add: str_encode_a str_encode_a0)
  with k a(3) have same:
    "projr (generate_upload_signature default_interp example_payload (lit ''a''))
       = projr (generate_upload_signature default_interp example_payload (lit ''a'' @ [0]))"
    by simp
  from key_sensitivity [OF h1 h3] obtain payload_json key1 key2 msg where
    b: "dumps default_interp example_payload (lit '','', lit '':'') = Inr payload_json"
       "str_encode (lit ''a'') = Inr key1" "str_encode (lit ''b'') = Inr key2"
       "msg = ascii_bytes (BASE64URL_NOPAD (ascii_bytes payload_json))"
       "hmac_key key1 \<noteq> hmac_key key2 \<longrightarrow>
          projr (generate_upload_signature default_interp example_payload (lit ''a''))
           \<noteq> projr (generate_upload_signature default_interp example_payload (lit ''b''))
          \<or> sha256_collision (hmac_outer_input key1 msg) (hmac_outer_input key2 msg)"
    by blast
  from b(1,2,3,4) have "key1 = [0x61]" "key2 = [0x62]"
      "msg = ascii_bytes (BASE64URL_NOPAD (ascii_bytes example_json))"
    by (simp_all add: str_encode_a str_encode_b example_dumps)
  with n b(5) have other:
    "sha256_collision
         (hmac_outer_input [0x61] (ascii_bytes (BASE64URL_NOPAD (ascii_bytes example_json))))
         (hmac_outer_input [0x62] (ascii_bytes (BASE64URL_NOPAD (ascii_bytes example_json))))
       \<or> projr (generate_upload_signature default_interp example_payload (lit ''a''))
           \<noteq> projr (generate_upload_signature default_interp example_payload (lit ''b''))"
    by blast
  show ?thesis using h1 h2 h3 k n same other by blast
qed

lemma empty_dumps: "dumps env (PDict []) (lit '','', lit '':'') = Inr (lit ''{}'')"
  by (simp add: dumps_def)

lemma empty_encoded: "BASE64URL_NOPAD (ascii_bytes (lit ''{}'')) = lit ''e30''"
  by code_simp

lemma ascii_bytes_e30: "ascii_bytes (lit ''e30'') = blit ''e30''"
  by (simp add: ascii_bytes_def lit_def blit_def)

text \<open>
  C8 (amended). For the empty mapping and every secret key that can be encoded as UTF-8
  (every key without a lone surrogate, empty or not), the signer returns a token of two
  parts: the serialisation is \<open>{}\<close>, the encoded payload is \<open>e30\<close>, and the encoded
  signature has 43 characters. For a key that cannot be encoded the signer raises
  \<open>UnicodeEncodeError\<close>.
\<close>

theorem empty_payload_token:
  "dumps env (PDict []) (lit '','', lit '':'') = Inr (lit ''{}'')
   \<and> (encodable secret_key \<longrightarrow>
        (\<exists>key sg.
            str_encode secret_key = Inr key
          \<and> sg = BASE64URL_NOPAD (hmac_sha256 key (blit ''e30''))
          \<and> generate_upload_signature env (PDict []) secret_key = Inr (lit ''e30'' @ lit ''.'' @ sg)
          \<and> length sg = 43 \<and> sg \<noteq> [] \<and> DOT \<notin> set sg \<and> DOT \<notin> set (lit ''e30'')))
   \<and> (\<not> encodable secret_key \<longrightarrow>
        generate_upload_signature env (PDict []) secret_key = Inl UnicodeEncodeError)"
proof -
  have good: "\<exists>key sg.
            str_encode secret_key = Inr key
          \<and> sg = BASE64URL_NOPAD (hmac_sha256 key (blit ''e30''))
          \<and> generate_upload_signature env (PDict []) secret_key = Inr (lit ''e30'' @ lit ''.'' @ sg)
          \<and> length sg = 43 \<and> sg \<noteq> [] \<and> DOT \<notin> set sg \<and> DOT \<notin> set (lit ''e30'')"
    if "encodable secret_key"
  proof -
    from that obtain key where key: "str_encode secret_key = Inr key"
      using str_encode_encodable by blast
    define sg where "sg = BASE64URL_NOPAD (hmac_sha256 key (blit ''e30''))"
    have tok: "generate_upload_signature env (PDict []) secret_key
                 = Inr (lit ''e30'' @ lit ''.'' @ sg)"
      by (simp add: sign_unfold empty_dumps key empty_encoded ascii_bytes_e30 sg_def)
    have len: "length sg = 43"
      by (simp add: sg_def length_BASE64URL_NOPAD length_hmac_sha256)
    then have ne: "sg \<noteq> []" by auto
    have nd: "DOT \<notin> set sg" by (simp add: sg_def BASE64URL_NOPAD_no_dot)
    have "DOT \<notin> set (lit ''e30'')" by (simp add: DOT_def lit_def)
    with key tok len ne nd show ?thesis unfolding sg_def by blast
  qed
  have bad: "generate_upload_signature env (PDict []) secret_key = Inl UnicodeEncodeError"
    if "\<not> encodable secret_key"
  proof -
    from that have "\<nexists>bs. str_encode secret_key = Inr bs"
      using str_encode_encodable by blast
    then obtain e where "str_encode secret_key = Inl e"
      by (cases "str_encode secret_key") auto
    then have "str_encode secret_key = Inl UnicodeEncodeError"
      using str_encode_error by blast
    then show ?thesis by (simp add: sign_unfold empty_dumps)
  qed
  show ?thesis using good bad empty_dumps by blast
qed

theorem empty_payload_token_witness:
  "encodable example_key
   \<and> (\<exists>key sg.
            str_encode example_key = Inr key
          \<and> generate_upload_signature default_interp (PDict []) example_key = Inr (lit ''e30'' @ lit ''.'' @ sg)
          \<and> length sg = 43)
   \<and> \<not> encodable [0xD800]
   \<and> generate_upload_signature default_interp (PDict []) [0xD800] = Inl UnicodeEncodeError"
proof -
  have h: "\<not> encodable [0xD800]" by (simp add: encodable_def)
  show ?thesis
    using example_key_encodable h empty_payload_token [of default_interp example_key]
      empty_payload_token [of default_interp "[0xD800]"]
    by blast
qed

theorem empty_payload_counterexample:
  "[0xD800] \<noteq> ([] :: pystr)
   \<and> generate_upload_signature default_interp (PDict []) [0xD800] = Inl UnicodeEncodeError"
  by (simp add: sign_unfold empty_dumps)

lemma join_Cons: "join sep (x # xs) = x @ (if xs = [] then [] else sep @ join sep xs)"
  by (cases xs) simp_all

lemma key_text_Inr:
  assumes "key_str env k = Inr s"
  shows "key_text k = s"
proof (cases k)
  case (PInt i)
  then show ?thesis using assms int_str_Inr [of env i s] by auto
next
  case (PBool b)
  then show ?thesis using assms by (cases b) auto
qed (use assms in auto)

lemma iterencode_canonical:
  "iterencode isep ksep env d v = Inr s \<Longrightarrow> isep = lit '','' \<Longrightarrow> ksep = lit '':'' \<Longrightarrow>
     s = canonicalJSON v"
  "iterencode_list isep ksep env d first vs = Inr s \<Longrightarrow> isep = lit '','' \<Longrightarrow> ksep = lit '':'' \<Longrightarrow>
     s = (if first \<or> vs = [] then [] else lit '','') @ join (lit '','') (map canonicalJSON vs)"
  "iterencode_dict isep ksep env d first kvs = Inr s \<Longrightarrow> isep = lit '','' \<Longrightarrow> ksep = lit '':'' \<Longrightarrow>
     s = (if first \<or> kvs = [] then [] else lit '','')
         @ join (lit '','')
             (map (\<lambda>kv. encode_basestring_ascii (key_text (fst kv)) @ lit '':''
                         @ canonicalJSON (snd kv)) kvs)"
proof (induction isep ksep env d v and isep ksep env d first vs and isep ksep env d first kvs
       arbitrary: s and s and s rule: iterencode_iterencode_list_iterencode_dict.induct)
  case (6 isep ksep env d xs)
  then show ?case by (auto simp: lit_def split: if_splits sum.splits)
next
  case (7 isep ksep env d xs)
  then show ?case by (auto simp: lit_def split: if_splits sum.splits)
next
  case (8 isep ksep env d kvs)
  then show ?case by (auto simp: lit_def split: if_splits sum.splits)
next
  case (12 isep ksep env d first v vs)
  from 12(3) obtain sv r where
    sv: "iterencode isep ksep env d v = Inr sv" and
    r: "iterencode_list isep ksep env d False vs = Inr r" and
    s: "s = (if first then [] else isep) @ sv @ r"
    by (auto split: sum.splits)
  have "sv = canonicalJSON v" using 12(1) [OF sv 12(4,5)] .
  moreover have "r = (if vs = [] then [] else lit '','') @ join (lit '','') (map canonicalJSON vs)"
    using 12(2) [OF sv r 12(4,5)] by simp
  ultimately show ?case
    using s 12(4) by (simp add: join_Cons)
next
  case (14 isep ksep env d first k v kvs)
  from 14(3) obtain key sv r where
    key: "key_str env k = Inr key" and
    sv: "iterencode isep ksep env d v = Inr sv" and
    r: "iterencode_dict isep ksep env d False kvs = Inr r" and
    s: "s = (if first then [] else isep) @ encode_basestring_ascii key @ ksep @ sv @ r"
    by (auto split: sum.splits)
  have "sv = canonicalJSON v" using 14(1) [OF key sv 14(4,5)] .
  moreover have "r = (if kvs = [] then [] else lit '','')
         @ join (lit '','')
             (map (\<lambda>kv. encode_basestring_ascii (key_text (fst kv)) @ lit '':''
                         @ canonicalJSON (snd kv)) kvs)"
    using 14(2) [OF key sv r 14(4,5)] by simp
  ultimately show ?case
    using s 14(4,5) key_text_Inr [OF key] by (simp add: join_Cons)
qed (auto split: if_splits dest: int_str_Inr)

lemma scan_append:
  "scan m (a @ b) = (case scan m a of None \<Rightarrow> None | Some m' \<Rightarrow> scan m' b)"
  by (induction m a rule: scan.induct) simp_all

lemma clean_append: "clean a \<Longrightarrow> clean b \<Longrightarrow> clean (a @ b)"
  by (simp add: clean_def scan_append)

lemma clean_Nil: "clean []"
  by (simp add: clean_def)

lemma plain_scan:
  "list_all plain s \<Longrightarrow> scan Outside s = Some Outside"
  "list_all plain s \<Longrightarrow> scan InString s = Some InString"
  by (induction s) (auto simp: plain_def is_ws_def)

lemma clean_plain: "(\<And>c. c \<in> set s \<Longrightarrow> plain c) \<Longrightarrow> clean s"
  by (simp add: clean_def plain_scan(1) list_all_iff)

lemma scan_hex4: "scan InString (hex4 n) = Some InString"
  by (rule plain_scan(2)) (simp add: hex4_def hexdigit_plain)

lemma scan_escape_ascii: "scan InString (escape_ascii c) = Some InString"
  by (simp add: escape_ascii_def Let_def lit_def scan_append scan_hex4)

lemma scan_string_body: "scan InString (concat (map escape_ascii s)) = Some InString"
  by (induction s) (simp_all add: scan_append scan_escape_ascii)

lemma clean_encode_basestring_ascii: "clean (encode_basestring_ascii s)"
  by (simp add: clean_def encode_basestring_ascii_def lit_def scan_append scan_string_body
        is_ws_def)

lemma clean_lits:
  "clean (lit ''null'')" "clean (lit ''true'')" "clean (lit ''false'')"
  "clean (lit ''[]'')" "clean (lit ''{}'')" "clean (lit ''['')" "clean (lit '']'')"
  "clean (lit ''{'')" "clean (lit ''}'')" "clean (lit '','')" "clean (lit '':'')"
  by (simp_all add: clean_def lit_def is_ws_def)

lemma iterencode_clean:
  "iterencode isep ksep env d v = Inr s \<Longrightarrow> clean isep \<Longrightarrow> clean ksep \<Longrightarrow> clean s"
  "iterencode_list isep ksep env d first vs = Inr s \<Longrightarrow> clean isep \<Longrightarrow> clean ksep \<Longrightarrow> clean s"
  "iterencode_dict isep ksep env d first kvs = Inr s \<Longrightarrow> clean isep \<Longrightarrow> clean ksep \<Longrightarrow> clean s"
proof (induction isep ksep env d v and isep ksep env d first vs and isep ksep env d first kvs
       arbitrary: s and s and s rule: iterencode_iterencode_list_iterencode_dict.induct)
  case (1 isep ksep env d str)
  then show ?case by (auto simp: clean_encode_basestring_ascii)
next
  case (3 isep ksep env d b)
  then show ?case by (auto simp: clean_lits)
next
  case (4 isep ksep env d i)
  then show ?case by (auto dest!: int_str_Inr intro!: clean_plain int_repr_plain)
next
  case (5 isep ksep env d x)
  then show ?case by (auto intro!: clean_plain floatstr_plain)
next
  case (6 isep ksep env d xs)
  then show ?case by (auto split: if_splits sum.splits intro!: clean_append simp: clean_lits)
next
  case (7 isep ksep env d xs)
  then show ?case by (auto split: if_splits sum.splits intro!: clean_append simp: clean_lits)
next
  case (8 isep ksep env d kvs)
  then show ?case by (auto split: if_splits sum.splits intro!: clean_append simp: clean_lits)
next
  case (12 isep ksep env d first v vs)
  then show ?case
    by (auto split: sum.splits if_splits intro!: clean_append simp: clean_Nil)
next
  case (14 isep ksep env d first k v kvs)
  then show ?case
    by (auto split: sum.splits if_splits intro!: clean_append
             simp: clean_Nil clean_encode_basestring_ascii)
qed (auto simp: clean_lits clean_Nil split: if_splits)

text \<open>
  C2. When the payload can be serialised, the text the signer encodes is the compact JSON
  text of the payload: the members of an object (and the elements of an array) are written
  in the order of the mapping's items, joined by one comma, each key joined to its value
  by one colon, and no whitespace character stands outside a string literal.
\<close>

theorem canonical_serialization:
  assumes "dumps env payload (lit '','', lit '':'') = Inr text"
  shows "text = canonicalJSON payload \<and> scan Outside text = Some Outside"
proof -
  have "text = canonicalJSON payload"
    using assms unfolding dumps_def by (intro iterencode_canonical(1)) simp_all
  moreover have "clean text"
    using assms unfolding dumps_def
    by (rule iterencode_clean(1)) (simp_all add: clean_lits)
  ultimately show ?thesis by (simp add: clean_def)
qed

theorem canonical_serialization_witness:
  \<open>dumps default_interp example_payload (lit '','', lit '':'') = Inr example_json
   \<and> example_json = lit ''{"user_id":42,"action":"upload"}''
   \<and> canonicalJSON example_payload = example_json
   \<and> scan Outside example_json = Some Outside\<close>
proof -
  have a: "example_json = canonicalJSON example_payload \<and> scan Outside example_json = Some Outside"
    using canonical_serialization [OF example_dumps] .
  have b: \<open>example_json = lit ''{"user_id":42,"action":"upload"}''\<close>
    by (rule example_json_def)
  from a have "example_json = canonicalJSON example_payload" by (rule conjunct1)
  then have c: "canonicalJSON example_payload = example_json" by (rule sym)
  from a have d: "scan Outside example_json = Some Outside" by (rule conjunct2)
  show ?thesis
    using example_dumps b c d by (intro conjI)
qed

end
